theory Spec2Isabelle
  imports Complex_Main "HOL-Library.Char_ord" "HOL-Library.List_Lexorder" "HOL-Library.AList"
begin

section \<open>Python strings\<close>

text \<open>
  The converter of \<^verbatim>\<open>optimized_wordpress_to_shopify_v2.py\<close> works on the cells of a CSV
  export.  A Python \<^verbatim>\<open>str\<close> is a \<^typ>\<open>string\<close> here, and a \<^typ>\<open>char\<close> is a code point
  below 256: the alphabet of the model is Latin-1, and a text with a code point from 256 on
  is not a value of the type.  On this alphabet the white space of \<^verbatim>\<open>str.strip\<close>, the
  mapping of \<^verbatim>\<open>str.lower\<close> and the cased characters of \<^verbatim>\<open>str.title\<close> are Python's.
  Strings are ordered by code point, lexicographically, as Python orders them.
\<close>

text \<open>The characters for which \<^verbatim>\<open>str.isspace\<close> holds: the ASCII white space, the four
  separators 28 to 31, NEL (133) and the no-break space (160).\<close>

definition is_space :: "char \<Rightarrow> bool" where
  "is_space c = (of_char c \<in> {9, 10, 11, 12, 13, 28, 29, 30, 31, 32, 133, 160 :: nat})"

definition strip :: "string \<Rightarrow> string" where
  "strip s = rev (dropWhile is_space (rev (dropWhile is_space s)))"

text \<open>\<^verbatim>\<open>s.split(c)\<close> for a separator of one character: never an empty list.  The piece
  being read is kept reversed in \<open>cur\<close>.\<close>

fun split_from :: "char \<Rightarrow> string \<Rightarrow> string \<Rightarrow> string list" where
  "split_from c cur [] = [rev cur]"
| "split_from c cur (x # xs) =
     (if x = c then rev cur # split_from c [] xs else split_from c (x # cur) xs)"

definition split_on :: "char \<Rightarrow> string \<Rightarrow> string list" where
  "split_on c s = split_from c [] s"

definition startswith :: "string \<Rightarrow> string \<Rightarrow> bool" where
  "startswith s p = (take (length p) s = p)"

text \<open>\<^verbatim>\<open>s.replace(old, new)\<close>, every occurrence from the left, for a non-empty \<^verbatim>\<open>old\<close>
  (the source replaces the literals \<^verbatim>\<open>'alt :'\<close>, \<^verbatim>\<open>'meta:attribute_pa_'\<close> and \<^verbatim>\<open>'_'\<close> only).\<close>

function replace :: "string \<Rightarrow> string \<Rightarrow> string \<Rightarrow> string" where
  "replace old new [] = []"
| "replace old new (x # xs) =
     (if old \<noteq> [] \<and> take (length old) (x # xs) = old
      then new @ replace old new (drop (length old) (x # xs))
      else x # replace old new xs)"
  by pat_completeness auto
termination
  by (relation "measure (\<lambda>(old, new, s). length s)") (auto simp: neq_Nil_conv)

text \<open>\<^verbatim>\<open>sub in s\<close> on strings.\<close>

fun contains :: "string \<Rightarrow> string \<Rightarrow> bool" where
  "contains [] sub = (sub = [])"
| "contains (x # xs) sub = (startswith (x # xs) sub \<or> contains xs sub)"

text \<open>The characters that \<^verbatim>\<open>str.lower\<close> changes: A to Z, and the Latin-1 capitals 192 to
  222 without the multiplication sign (215); each moves up by 32.\<close>

definition is_upper :: "char \<Rightarrow> bool" where
  "is_upper c =
     ((65 \<le> (of_char c :: nat) \<and> (of_char c :: nat) \<le> 90)
      \<or> (192 \<le> (of_char c :: nat) \<and> (of_char c :: nat) \<le> 222 \<and> (of_char c :: nat) \<noteq> 215))"

definition lower_char :: "char \<Rightarrow> char" where
  "lower_char c = (if is_upper c then char_of (of_char c + (32 :: nat)) else c)"

definition lower :: "string \<Rightarrow> string" where
  "lower s = map lower_char s"

text \<open>The characters with a capital 32 below them: a to z, and 224 to 254 without the
  division sign (247).\<close>

definition has_capital :: "char \<Rightarrow> bool" where
  "has_capital c =
     ((97 \<le> (of_char c :: nat) \<and> (of_char c :: nat) \<le> 122)
      \<or> (224 \<le> (of_char c :: nat) \<and> (of_char c :: nat) \<le> 254 \<and> (of_char c :: nat) \<noteq> 247))"

text \<open>The title-case form of a character, which \<^verbatim>\<open>str.capitalize\<close> and \<^verbatim>\<open>str.title\<close> put at
  the start of a word: the capital, and \<^verbatim>\<open>Ss\<close> for the sharp s (223).  The title-case forms
  of the micro sign (181) and of y with diaeresis (255) are the code points 924 and 376,
  which the alphabet does not have: \<open>title_char\<close> leaves these two characters as they
  are, so a name that has one of them at the start of a word gets an option name or a
  metafield column name that differs from Python's in that character.\<close>

definition title_char :: "char \<Rightarrow> string" where
  "title_char c =
     (if has_capital c then [char_of (of_char c - (32 :: nat))]
      else if (of_char c :: nat) = 223 then ''Ss''
      else [c])"

definition capitalize :: "string \<Rightarrow> string" where
  "capitalize s = (case s of [] \<Rightarrow> [] | c # cs \<Rightarrow> title_char c @ lower cs)"

text \<open>The cased characters: the letters of both cases, the ordinal indicators (170, 186)
  and the micro sign (181).\<close>

definition is_cased :: "char \<Rightarrow> bool" where
  "is_cased c =
     (is_upper c \<or> has_capital c \<or> (of_char c :: nat) \<in> {170, 181, 186, 223, 255})"

text \<open>\<^verbatim>\<open>s.title()\<close>: a character after a cased one is lowered, any other gets its title-case
  form.\<close>

fun title_from :: "bool \<Rightarrow> string \<Rightarrow> string" where
  "title_from prev_cased [] = []"
| "title_from prev_cased (c # cs) =
     (if prev_cased then [lower_char c] else title_char c)
       @ title_from (is_cased c) cs"

definition title :: "string \<Rightarrow> string" where
  "title s = title_from False s"

fun join :: "string \<Rightarrow> string list \<Rightarrow> string" where
  "join sep [] = []"
| "join sep [x] = x"
| "join sep (x # y # ys) = x @ sep @ join sep (y # ys)"

text \<open>\<^verbatim>\<open>str(n)\<close> of an integer.\<close>

fun str_nat :: "nat \<Rightarrow> string" where
  "str_nat n =
     (if n < 10 then [char_of (48 + n)]
      else str_nat (n div 10) @ [char_of (48 + n mod 10)])"

declare str_nat.simps [simp del]

definition str_int :: "int \<Rightarrow> string" where
  "str_int i = (if i < 0 then CHR ''-'' # str_nat (nat (- i)) else str_nat (nat i))"

text \<open>\<^verbatim>\<open>sorted(list(set(xs)))\<close> and \<^verbatim>\<open>sorted(set(xs))\<close>.\<close>

definition sorted_set :: "string list \<Rightarrow> string list" where
  "sorted_set xs = sort (remdups xs)"

section \<open>Cells and errors\<close>

text \<open>
  A cell of the data frame read from the CSV file is missing (\<^verbatim>\<open>NaN\<close>), a text or a
  number.  \<open>Num n\<close> is the Python \<^verbatim>\<open>int\<close> \<open>n\<close>, which a column of whole numbers without a
  missing cell holds.  \<open>Flt q r\<close> is a finite \<^verbatim>\<open>float\<close> of the value \<open>q\<close> that \<^verbatim>\<open>str\<close> prints as
  \<open>r\<close>, as a numeric column with a missing cell holds: \<open>Flt 40 ''40.0''\<close> for the cell
  \<^verbatim>\<open>40\<close> (the printed form is data here, Python's shortest decimal that reads back as the
  float; the infinite floats are left out).  A method of \<^verbatim>\<open>str\<close> called on a number raises
  \<^verbatim>\<open>AttributeError\<close>, and reading a key that a dictionary does not have raises \<^verbatim>\<open>KeyError\<close>.
\<close>

datatype cell = NaN | Str string | Num int | Flt rat string

datatype error = AttributeError | KeyError

definition isna :: "cell \<Rightarrow> bool" where
  "isna c = (c = NaN)"

definition py_str :: "cell \<Rightarrow> string" where
  "py_str c =
     (case c of NaN \<Rightarrow> ''nan'' | Str s \<Rightarrow> s | Num n \<Rightarrow> str_int n | Flt q r \<Rightarrow> r)"

text \<open>\<^verbatim>\<open>int(x)\<close> of a float: the fraction is cut off.\<close>

definition int_of_float :: "rat \<Rightarrow> int" where
  "int_of_float q = (if 0 \<le> q then \<lfloor>q\<rfloor> else \<lceil>q\<rceil>)"

text \<open>The value of a number cell.\<close>

definition number_value :: "cell \<Rightarrow> rat option" where
  "number_value c =
     (case c of Num n \<Rightarrow> Some (of_int n) | Flt q r \<Rightarrow> Some q | _ \<Rightarrow> None)"

section \<open>The image descriptor parser\<close>

record image =
  url :: string
  alt :: string

text \<open>The inner loop of \<^verbatim>\<open>parse_images\<close> over \<^verbatim>\<open>parts[1:]\<close>, leaving at the first marker.\<close>

fun find_alt :: "string list \<Rightarrow> string" where
  "find_alt [] = []"
| "find_alt (part # parts) =
     (if startswith (strip part) ''alt :'' then strip (replace ''alt :'' [] part)
      else find_alt parts)"

text \<open>The loop over the segments of \<^verbatim>\<open>image_str.split('|')\<close>.\<close>

fun parse_segments :: "string list \<Rightarrow> image list" where
  "parse_segments [] = []"
| "parse_segments (seg # segs) =
     (let img = strip seg in
      if img = [] then parse_segments segs
      else (let parts = split_on CHR ''!'' img in
            \<lparr>url = strip (hd parts), alt = find_alt (tl parts)\<rparr> # parse_segments segs))"

definition parse_images :: "cell \<Rightarrow> error + image list" where
  "parse_images image_str =
     (case image_str of
        NaN \<Rightarrow> Inr []
      | Str s \<Rightarrow> Inr (parse_segments (split_on CHR ''|'' s))
      | _ \<Rightarrow> Inl AttributeError)"

section \<open>Product records and data frames\<close>

text \<open>
  One line of the WordPress export.  The columns that the converter reads by name are
  fields; every other column (the taxonomy column \<^verbatim>\<open>tax:product_cat\<close> and the attribute
  columns \<^verbatim>\<open>meta:attribute_pa_<name>\<close>) is an entry of \<open>other_columns\<close>.
\<close>

record product_row =
  ID :: cell
  post_parent :: cell
  post_title :: cell
  post_excerpt :: cell
  post_status :: cell
  regular_price :: cell
  sale_price :: cell
  images :: cell
  other_columns :: "(string \<times> cell) list"

text \<open>\<^verbatim>\<open>row.get(col)\<close>; \<open>None\<close> when the row has no such column (\<^verbatim>\<open>col in row\<close> is false).\<close>

definition row_get :: "product_row \<Rightarrow> string \<Rightarrow> cell option" where
  "row_get r col =
     (if col = ''ID'' then Some (ID r)
      else if col = ''post_parent'' then Some (post_parent r)
      else if col = ''post_title'' then Some (post_title r)
      else if col = ''post_excerpt'' then Some (post_excerpt r)
      else if col = ''post_status'' then Some (post_status r)
      else if col = ''regular_price'' then Some (regular_price r)
      else if col = ''sale_price'' then Some (sale_price r)
      else if col = ''images'' then Some (images r)
      else map_of (other_columns r) col)"

text \<open>\<^verbatim>\<open>parent_row.get('tax:product_cat', '')\<close>.\<close>

definition tax_product_cat :: "product_row \<Rightarrow> cell" where
  "tax_product_cat r =
     (case row_get r ''tax:product_cat'' of None \<Rightarrow> Str [] | Some c \<Rightarrow> c)"

text \<open>A data frame: its column names and its lines, each line holding a cell for every
  column.\<close>

record data_frame =
  df_columns :: "string list"
  df_rows :: "product_row list"

section \<open>Output rows\<close>

text \<open>
  An output row is a Python dictionary from column names to values, in insertion order:
  an association list updated with \<^const>\<open>AList.update\<close>, which overwrites a key in place
  and appends a new one, as a dictionary does.  A value is a cell, or the empty list that
  \<^verbatim>\<open>extract_tags\<close> returns for a missing taxonomy cell.
\<close>

datatype pyval = Cell cell | Empty_list

type_synonym row = "(string \<times> pyval) list"

definition dict_get :: "row \<Rightarrow> string \<Rightarrow> pyval \<Rightarrow> pyval" where
  "dict_get d k dflt = (case map_of d k of None \<Rightarrow> dflt | Some v \<Rightarrow> v)"

definition dict_item :: "row \<Rightarrow> string \<Rightarrow> error + pyval" where
  "dict_item d k = (case map_of d k of None \<Rightarrow> Inl KeyError | Some v \<Rightarrow> Inr v)"

definition has_key :: "row \<Rightarrow> string \<Rightarrow> bool" where
  "has_key d k = (map_of d k \<noteq> None)"

text \<open>The truth value of \<^verbatim>\<open>if v:\<close>.\<close>

definition truthy :: "pyval \<Rightarrow> bool" where
  "truthy v =
     (case v of
        Cell NaN \<Rightarrow> True
      | Cell (Str s) \<Rightarrow> s \<noteq> []
      | Cell (Num n) \<Rightarrow> n \<noteq> 0
      | Cell (Flt q r) \<Rightarrow> q \<noteq> 0
      | Empty_list \<Rightarrow> False)"

text \<open>Sequencing of steps that may raise: the first error leaves the function.\<close>

definition and_then :: "error + 'a \<Rightarrow> ('a \<Rightarrow> error + 'b) \<Rightarrow> error + 'b" where
  "and_then m f = (case m of Inl e \<Rightarrow> Inl e | Inr x \<Rightarrow> f x)"

section \<open>The category and tag extractor\<close>

fun tags_loop :: "bool \<Rightarrow> string list \<Rightarrow> string list" where
  "tags_loop single_tag_mode [] = []"
| "tags_loop single_tag_mode (category # rest) =
     (let parts = map strip (split_on CHR ''>'' category) in
      if single_tag_mode then
        (if length parts \<ge> 2 \<and> strip (parts ! 1) \<noteq> []
         then strip (parts ! 1) # tags_loop single_tag_mode rest
         else tags_loop single_tag_mode rest)
      else
        (if parts \<noteq> [] \<and> strip (last parts) \<noteq> []
         then strip (last parts) # tags_loop single_tag_mode rest
         else tags_loop single_tag_mode rest))"

definition extract_tags :: "cell \<Rightarrow> bool \<Rightarrow> error + pyval" where
  "extract_tags category_str single_tag_mode =
     (case category_str of
        NaN \<Rightarrow> Inr Empty_list
      | Str s \<Rightarrow>
          Inr (Cell (Str (join '', ''
            (sorted_set (tags_loop single_tag_mode (split_on CHR ''|'' s))))))
      | _ \<Rightarrow> Inl AttributeError)"

record category_info =
  category :: string
  subcategory :: string

fun categories_loop :: "string list \<Rightarrow> category_info list" where
  "categories_loop [] = []"
| "categories_loop (c # rest) =
     (let parts = map strip (split_on CHR ''>'' c) in
      if length parts \<ge> 3
      then \<lparr>category = strip (parts ! 1), subcategory = strip (parts ! 2)\<rparr>
             # categories_loop rest
      else categories_loop rest)"

definition extract_category_info :: "cell \<Rightarrow> error + category_info" where
  "extract_category_info category_str =
     (case category_str of
        NaN \<Rightarrow> Inr \<lparr>category = [], subcategory = []\<rparr>
      | Str s \<Rightarrow>
          (case categories_loop (split_on CHR ''|'' s) of
             [] \<Rightarrow> Inr \<lparr>category = [], subcategory = []\<rparr>
           | c # _ \<Rightarrow> Inr c)
      | _ \<Rightarrow> Inl AttributeError)"

section \<open>The attribute catalog\<close>

definition is_str :: "cell \<Rightarrow> bool" where
  "is_str c = (case c of Str s \<Rightarrow> True | _ \<Rightarrow> False)"

text \<open>The pieces of a pipe-separated cell that are not blank, trimmed.\<close>

definition pipe_pieces :: "string \<Rightarrow> string list" where
  "pipe_pieces s = filter (\<lambda>v. v \<noteq> []) (map strip (split_on CHR ''|'' s))"

text \<open>\<^verbatim>\<open>get_metafield_values\<close>: the loop gathers what each child adds to the set.  Every
  line of a frame has the frame's columns, so \<^verbatim>\<open>attr_name in children_df.columns\<close> is
  read off the line.\<close>

fun metafield_values_loop :: "product_row list \<Rightarrow> string \<Rightarrow> string list" where
  "metafield_values_loop [] attr_name = []"
| "metafield_values_loop (r # rs) attr_name =
     (case row_get r attr_name of
        None \<Rightarrow> metafield_values_loop rs attr_name
      | Some c \<Rightarrow>
          if \<not> isna c then
            (if is_str c \<and> CHR ''|'' \<in> set (py_str c)
             then pipe_pieces (py_str c) @ metafield_values_loop rs attr_name
             else if strip (py_str c) \<noteq> []
             then strip (py_str c) # metafield_values_loop rs attr_name
             else metafield_values_loop rs attr_name)
          else metafield_values_loop rs attr_name)"

definition get_metafield_values :: "product_row list \<Rightarrow> string \<Rightarrow> string list" where
  "get_metafield_values children_df attr_name =
     sorted_set (metafield_values_loop children_df attr_name)"

record metafield_attr =
  original :: string
  formatted :: string
  field_name :: string

definition variant_attr_names :: "string list" where
  "variant_attr_names = [''size'', ''sizes'', ''color'']"

definition meta_cols :: "string list \<Rightarrow> string list" where
  "meta_cols cols = filter (\<lambda>col. startswith col ''meta:attribute_pa_'') cols"

fun metafield_attrs_loop :: "string list \<Rightarrow> metafield_attr list" where
  "metafield_attrs_loop [] = []"
| "metafield_attrs_loop (col # cols) =
     (let attr_name = replace ''meta:attribute_pa_'' [] col in
      if lower attr_name \<notin> set variant_attr_names then
        (let formatted_name = title (replace ''_'' '' '' attr_name) in
         \<lparr>original = col, formatted = formatted_name,
          field_name = formatted_name @ '' (product.metafields.custom.'' @ attr_name @ '')''\<rparr>
           # metafield_attrs_loop cols)
      else metafield_attrs_loop cols)"

definition get_metafield_attributes :: "data_frame \<Rightarrow> metafield_attr list" where
  "get_metafield_attributes df = metafield_attrs_loop (meta_cols (df_columns df))"

definition notna_any :: "product_row list \<Rightarrow> string \<Rightarrow> bool" where
  "notna_any rs col =
     list_ex (\<lambda>r. case row_get r col of None \<Rightarrow> False | Some c \<Rightarrow> \<not> isna c) rs"

fun variant_attrs_loop :: "product_row list \<Rightarrow> string list \<Rightarrow> string list" where
  "variant_attrs_loop children_df [] = []"
| "variant_attrs_loop children_df (col # cols) =
     (let attr_name = replace ''meta:attribute_pa_'' [] col in
      if lower attr_name \<in> set variant_attr_names
         \<and> children_df \<noteq> [] \<and> notna_any children_df col
      then attr_name # variant_attrs_loop children_df cols
      else variant_attrs_loop children_df cols)"

definition get_variant_attributes :: "data_frame \<Rightarrow> string list" where
  "get_variant_attributes df =
     sort (variant_attrs_loop (filter (\<lambda>r. \<not> isna (post_parent r)) (df_rows df))
             (meta_cols (df_columns df)))"

text \<open>\<^verbatim>\<open>get_option_values\<close>: a number adds \<^verbatim>\<open>str(int(x))\<close>, a text its trimmed pieces that
  are not blank.  Nothing in the \<^verbatim>\<open>try\<close> block raises on these cells.\<close>

fun option_values_loop :: "product_row list \<Rightarrow> string \<Rightarrow> string list" where
  "option_values_loop [] col_name = []"
| "option_values_loop (r # rs) col_name =
     (case row_get r col_name of
        None \<Rightarrow> option_values_loop rs col_name
      | Some c \<Rightarrow>
          if \<not> isna c then
            (case c of
               Num n \<Rightarrow> str_int n # option_values_loop rs col_name
             | Flt q r \<Rightarrow> str_int (int_of_float q) # option_values_loop rs col_name
             | _ \<Rightarrow> pipe_pieces (py_str c) @ option_values_loop rs col_name)
          else option_values_loop rs col_name)"

definition get_option_values :: "product_row list \<Rightarrow> string \<Rightarrow> string list" where
  "get_option_values children_df option_name =
     sorted_set (option_values_loop children_df (''meta:attribute_pa_'' @ option_name))"

section \<open>The child row matcher\<close>

text \<open>The loop over \<^verbatim>\<open>zip(attr_names, variant_values)\<close> for one child: a cell that is
  there and not missing must list the value.\<close>

fun child_matches :: "product_row \<Rightarrow> (string \<times> string) list \<Rightarrow> bool" where
  "child_matches child [] = True"
| "child_matches child ((attr_name, v) # rest) =
     (case row_get child (''meta:attribute_pa_'' @ attr_name) of
        None \<Rightarrow> child_matches child rest
      | Some c \<Rightarrow>
          if \<not> isna c then
            (let child_value = py_str c;
                 child_values =
                   (if CHR ''|'' \<in> set child_value
                    then map strip (split_on CHR ''|'' child_value)
                    else [child_value])
             in if v \<notin> set child_values then False else child_matches child rest)
          else child_matches child rest)"

text \<open>The loop over \<^verbatim>\<open>children_df.iterrows()\<close>, leaving at the first match.\<close>

fun find_matching_child ::
  "product_row list \<Rightarrow> (string \<times> string) list \<Rightarrow> product_row option" where
  "find_matching_child [] combination = None"
| "find_matching_child (child # rest) combination =
     (if child_matches child combination then Some child
      else find_matching_child rest combination)"

section \<open>The cascading fallback resolver\<close>

text \<open>The carried state \<^verbatim>\<open>previous_variant_data\<close>, a dictionary of three fixed keys.\<close>

record previous_variant_data =
  variant_price :: pyval
  compare_at_price :: pyval
  variant_image :: pyval

fun parent_image_match :: "image list \<Rightarrow> string list \<Rightarrow> string option" where
  "parent_image_match [] attribute_values = None"
| "parent_image_match (img # imgs) attribute_values =
     (if list_ex (\<lambda>attr_val. contains (lower (url img)) (lower attr_val)) attribute_values
      then Some (url img)
      else parent_image_match imgs attribute_values)"

definition get_variant_image ::
  "product_row \<Rightarrow> image list \<Rightarrow> string list \<Rightarrow> pyval \<Rightarrow> error + pyval" where
  "get_variant_image variant_row parent_images attribute_values previous_image =
     and_then
       (if \<not> isna (images variant_row) then parse_images (images variant_row) else Inr [])
       (\<lambda>variant_images.
          if variant_images \<noteq> [] then Inr (Cell (Str (url (hd variant_images))))
          else
            (case parent_image_match parent_images attribute_values of
               Some u \<Rightarrow> Inr (Cell (Str u))
             | None \<Rightarrow>
                 Inr (if truthy previous_image then previous_image else Cell (Str []))))"

text \<open>The price of a row that has a child: the child's sale price, else its regular price,
  else the carried price; the compare-at price is the child's regular price, else the
  carried one.\<close>

definition resolve_price :: "product_row \<Rightarrow> previous_variant_data \<Rightarrow> pyval" where
  "resolve_price child previous =
     (if \<not> isna (sale_price child) then Cell (sale_price child)
      else if \<not> isna (regular_price child) then Cell (regular_price child)
      else variant_price previous)"

definition resolve_compare :: "product_row \<Rightarrow> previous_variant_data \<Rightarrow> pyval" where
  "resolve_compare child previous =
     (if \<not> isna (regular_price child) then Cell (regular_price child)
      else compare_at_price previous)"

text \<open>\<^verbatim>\<open>previous_variant_data.update({...})\<close> from a finished row.\<close>

definition carried_from :: "row \<Rightarrow> previous_variant_data" where
  "carried_from r =
     \<lparr>variant_price = dict_get r ''Variant Price'' (Cell (Str [])),
      compare_at_price = dict_get r ''Variant Compare At Price'' (Cell (Str [])),
      variant_image = dict_get r ''Variant Image'' (Cell (Str []))\<rparr>"

section \<open>The row assembler\<close>

definition newline :: string where
  "newline = [char_of (10 :: nat)]"

definition metafield_text ::
  "product_row \<Rightarrow> product_row list \<Rightarrow> metafield_attr \<Rightarrow> string" where
  "metafield_text parent_row children_df attr =
     (let vals = get_metafield_values children_df (original attr) in
      if vals \<noteq> [] then join newline vals
      else
        (let parent_value =
               (case row_get parent_row (original attr) of None \<Rightarrow> Str [] | Some c \<Rightarrow> c)
         in if \<not> isna parent_value then
              (if is_str parent_value \<and> CHR ''|'' \<in> set (py_str parent_value)
               then join newline (sort (pipe_pieces (py_str parent_value)))
               else py_str parent_value)
            else []))"

fun add_metafields ::
  "product_row \<Rightarrow> product_row list \<Rightarrow> metafield_attr list \<Rightarrow> row \<Rightarrow> row" where
  "add_metafields parent_row children_df [] base_row = base_row"
| "add_metafields parent_row children_df (attr # attrs) base_row =
     add_metafields parent_row children_df attrs
       (AList.update (field_name attr)
          (Cell (Str (metafield_text parent_row children_df attr))) base_row)"

definition category_key :: string where
  "category_key = ''Category (product.metafields.custom.category)''"

definition sub_category_key :: string where
  "sub_category_key = ''Sub Category (product.metafields.custom.sub_category)''"

definition make_base_row ::
  "product_row \<Rightarrow> product_row list \<Rightarrow> metafield_attr list \<Rightarrow> category_info \<Rightarrow> pyval \<Rightarrow> row"
  where
  "make_base_row parent_row children_df metafield_attrs info tags =
     add_metafields parent_row children_df metafield_attrs
       [(''Handle'', Cell (post_title parent_row)),
        (''Title'', Cell (post_title parent_row)),
        (''Body (HTML)'',
           Cell (if \<not> isna (post_excerpt parent_row) then post_excerpt parent_row else Str [])),
        (''Published'',
           Cell (Str (if post_status parent_row = Str ''publish'' then ''true'' else ''false''))),
        (''Tags'', tags),
        (category_key, Cell (Str (category info))),
        (sub_category_key, Cell (Str (subcategory info)))]"

text \<open>\<^verbatim>\<open>attribute_values\<close>: the variant attributes that have values among the children,
  each with its sorted values.\<close>

fun collect_attribute_values ::
  "product_row list \<Rightarrow> string list \<Rightarrow> (string \<times> string list) list
     \<Rightarrow> (string \<times> string list) list" where
  "collect_attribute_values children_df [] acc = acc"
| "collect_attribute_values children_df (attr # attrs) acc =
     (let vals = get_option_values children_df attr in
      collect_attribute_values children_df attrs
        (if vals \<noteq> [] then AList.update attr vals acc else acc))"

definition attribute_values_of ::
  "product_row list \<Rightarrow> string list \<Rightarrow> (string \<times> string list) list" where
  "attribute_values_of children_df variant_attrs =
     collect_attribute_values children_df variant_attrs []"

definition option_name_key :: "nat \<Rightarrow> string" where
  "option_name_key idx = ''Option'' @ str_nat idx @ '' Name''"

definition option_value_key :: "nat \<Rightarrow> string" where
  "option_value_key idx = ''Option'' @ str_nat idx @ '' Value''"

text \<open>The option loop of the first row, over \<^verbatim>\<open>enumerate(attribute_values.items(), 1)\<close>.\<close>

fun first_row_options :: "nat \<Rightarrow> (string \<times> string list) list \<Rightarrow> row \<Rightarrow> row" where
  "first_row_options idx [] first_row = first_row"
| "first_row_options idx ((attr_name, vals) # rest) first_row =
     (let attr_name = (if lower attr_name = ''sizes'' then ''Size'' else attr_name);
          first_row =
            (if lower attr_name = ''color''
             then AList.update ''Image Alt Text'' (Cell (Str (hd vals))) first_row
             else first_row);
          first_row =
            AList.update (option_name_key idx) (Cell (Str (capitalize attr_name))) first_row;
          first_row = AList.update (option_value_key idx) (Cell (Str (hd vals))) first_row
      in first_row_options (Suc idx) rest first_row)"

definition with_first_image :: "image list \<Rightarrow> row \<Rightarrow> row" where
  "with_first_image parent_images first_row =
     (case parent_images of
        [] \<Rightarrow> first_row
      | img # _ \<Rightarrow>
          AList.update ''Image Position'' (Cell (Num 1))
            (AList.update ''Image Alt Text'' (Cell (Str (alt img)))
              (AList.update ''Image Src'' (Cell (Str (url img))) first_row)))"

definition initial_previous :: "product_row \<Rightarrow> previous_variant_data" where
  "initial_previous parent_row =
     \<lparr>variant_price =
        Cell (if \<not> isna (regular_price parent_row) then regular_price parent_row else Str []),
      compare_at_price =
        Cell (if \<not> isna (sale_price parent_row) then sale_price parent_row else Str []),
      variant_image = Cell (Str [])\<rparr>"

text \<open>The first row and the carried state after it.\<close>

definition make_first_row ::
  "row \<Rightarrow> product_row list \<Rightarrow> image list \<Rightarrow> (string \<times> string list) list
     \<Rightarrow> previous_variant_data \<Rightarrow> error + (row \<times> previous_variant_data)" where
  "make_first_row base_row children_df parent_images attribute_values previous =
     (let first_row = with_first_image parent_images base_row in
      case children_df of
        first_variant # _ \<Rightarrow>
          (let first_row =
                 AList.update ''Variant Price'' (resolve_price first_variant previous) first_row;
               first_row =
                 AList.update ''Variant Compare At Price''
                   (resolve_compare first_variant previous) first_row
           in and_then (get_variant_image first_variant parent_images [] (Cell (Str [])))
                (\<lambda>variant_image.
                   let first_row =
                         (if truthy variant_image
                          then AList.update ''Variant Image'' variant_image first_row
                          else first_row)
                   in Inr (first_row_options 1 attribute_values first_row,
                           carried_from first_row)))
      | [] \<Rightarrow>
          Inr (AList.update ''Variant Compare At Price'' (compare_at_price previous)
                 (AList.update ''Variant Price'' (variant_price previous) first_row),
               previous))"

text \<open>The rows of the remaining parent images, \<^verbatim>\<open>enumerate(parent_images[1:], 2)\<close>.\<close>

fun copy_metafields :: "row \<Rightarrow> metafield_attr list \<Rightarrow> row \<Rightarrow> error + row" where
  "copy_metafields base_row [] img_row = Inr img_row"
| "copy_metafields base_row (attr # attrs) img_row =
     and_then (dict_item base_row (field_name attr))
       (\<lambda>v. copy_metafields base_row attrs (AList.update (field_name attr) v img_row))"

definition make_image_row ::
  "product_row \<Rightarrow> row \<Rightarrow> metafield_attr list \<Rightarrow> category_info \<Rightarrow> nat \<Rightarrow> image
     \<Rightarrow> error + row" where
  "make_image_row parent_row base_row metafield_attrs info idx img =
     and_then (dict_item base_row ''Tags'')
       (\<lambda>tags.
          and_then
            (copy_metafields base_row metafield_attrs
               [(''Handle'', Cell (post_title parent_row)),
                (''Image Src'', Cell (Str (url img))),
                (''Image Alt Text'', Cell (Str (alt img))),
                (''Image Position'', Cell (Num (int idx))),
                (''Tags'', tags)])
            (\<lambda>img_row.
               Inr (AList.update sub_category_key (Cell (Str (subcategory info)))
                      (AList.update category_key (Cell (Str (category info))) img_row))))"

fun image_rows ::
  "product_row \<Rightarrow> row \<Rightarrow> metafield_attr list \<Rightarrow> category_info \<Rightarrow> nat \<Rightarrow> image list
     \<Rightarrow> error + row list" where
  "image_rows parent_row base_row metafield_attrs info idx [] = Inr []"
| "image_rows parent_row base_row metafield_attrs info idx (img # imgs) =
     and_then (make_image_row parent_row base_row metafield_attrs info idx img)
       (\<lambda>img_row.
          and_then (image_rows parent_row base_row metafield_attrs info (Suc idx) imgs)
            (\<lambda>rest. Inr (img_row # rest)))"

text \<open>The option loop of a variant row, over
  \<^verbatim>\<open>enumerate(zip(attr_names, variant_values), 1)\<close>.\<close>

fun variant_options :: "nat \<Rightarrow> (string \<times> string) list \<Rightarrow> row \<Rightarrow> row" where
  "variant_options idx [] variant_row = variant_row"
| "variant_options idx ((name, v) # rest) variant_row =
     (let name = (if lower name = ''sizes'' then ''Size'' else name) in
      variant_options (Suc idx) rest
        (AList.update (option_value_key idx) (Cell (Str v))
           (AList.update (option_name_key idx) (Cell (Str (capitalize name))) variant_row)))"

text \<open>The body of the loop over the combinations, for one combination that is not the
  primary one: the row before its options are added, from which the carried state is
  updated, and then the row itself.\<close>

definition resolve_variant ::
  "row \<Rightarrow> product_row list \<Rightarrow> image list \<Rightarrow> string list \<Rightarrow> previous_variant_data
     \<Rightarrow> string list \<Rightarrow> error + row" where
  "resolve_variant base_row children_df parent_images attr_names previous variant_values =
     (case find_matching_child children_df (zip attr_names variant_values) of
        Some matching_child \<Rightarrow>
          (let variant_row =
                 AList.update ''Variant Price'' (resolve_price matching_child previous) base_row;
               variant_row =
                 AList.update ''Variant Compare At Price''
                   (resolve_compare matching_child previous) variant_row
           in and_then
                (get_variant_image matching_child parent_images variant_values
                   (variant_image previous))
                (\<lambda>img.
                   Inr (if truthy img then AList.update ''Variant Image'' img variant_row
                        else variant_row)))
      | None \<Rightarrow>
          Inr (AList.update ''Variant Image'' (variant_image previous)
                 (AList.update ''Variant Compare At Price'' (compare_at_price previous)
                    (AList.update ''Variant Price'' (variant_price previous) base_row))))"

text \<open>The loop over \<^verbatim>\<open>product(*attr_values)\<close>; the primary combination is passed over.\<close>

fun variant_rows_loop ::
  "row \<Rightarrow> product_row list \<Rightarrow> image list \<Rightarrow> string list \<Rightarrow> string list
     \<Rightarrow> previous_variant_data \<Rightarrow> string list list \<Rightarrow> error + row list" where
  "variant_rows_loop base_row children_df parent_images attr_names primary previous [] = Inr []"
| "variant_rows_loop base_row children_df parent_images attr_names primary previous
     (variant_values # rest) =
     (if variant_values = primary
      then variant_rows_loop base_row children_df parent_images attr_names primary previous rest
      else
        and_then
          (resolve_variant base_row children_df parent_images attr_names previous variant_values)
          (\<lambda>variant_row.
             and_then
               (variant_rows_loop base_row children_df parent_images attr_names primary
                  (carried_from variant_row) rest)
               (\<lambda>rows.
                  Inr (variant_options 1 (zip attr_names variant_values) variant_row # rows))))"

definition create_variant_rows ::
  "product_row \<Rightarrow> product_row list \<Rightarrow> string list \<Rightarrow> metafield_attr list \<Rightarrow> error + row list"
  where
  "create_variant_rows parent_row children_df variant_attrs metafield_attrs =
     and_then (extract_category_info (tax_product_cat parent_row))
       (\<lambda>info.
     and_then (extract_tags (tax_product_cat parent_row) False)
       (\<lambda>tags.
     let base_row = make_base_row parent_row children_df metafield_attrs info tags in
     and_then (parse_images (images parent_row))
       (\<lambda>parent_images.
     let attribute_values = attribute_values_of children_df variant_attrs in
     and_then
       (make_first_row base_row children_df parent_images attribute_values
          (initial_previous parent_row))
       (\<lambda>(first_row, previous).
     and_then (image_rows parent_row base_row metafield_attrs info 2 (tl parent_images))
       (\<lambda>img_rows.
     and_then
       (if attribute_values \<noteq> [] \<and> children_df \<noteq> []
        then variant_rows_loop base_row children_df parent_images (map fst attribute_values)
               (map (\<lambda>v. hd v) (map snd attribute_values)) previous
               (product_lists (map snd attribute_values))
        else Inr [])
       (\<lambda>variant_rows. Inr (first_row # img_rows @ variant_rows)))))))"

section \<open>The conversion\<close>

text \<open>\<^verbatim>\<open>df['post_parent'] == parent_row['ID']\<close>: texts are equal as texts, numbers by
  their value, and a missing cell equals nothing.\<close>

definition cell_eq :: "cell \<Rightarrow> cell \<Rightarrow> bool" where
  "cell_eq a b =
     (case (a, b) of
        (Str s, Str t) \<Rightarrow> s = t
      | _ \<Rightarrow>
          (case (number_value a, number_value b) of
             (Some x, Some y) \<Rightarrow> x = y
           | _ \<Rightarrow> False))"

definition parent_products :: "data_frame \<Rightarrow> product_row list" where
  "parent_products df = filter (\<lambda>r. isna (post_parent r)) (df_rows df)"

definition children_of :: "data_frame \<Rightarrow> product_row \<Rightarrow> product_row list" where
  "children_of df parent_row = filter (\<lambda>r. cell_eq (post_parent r) (ID parent_row)) (df_rows df)"

text \<open>The loop over the parents: the rows of each product are appended to the output; an
  exception raised for one product is not caught and leaves the function.\<close>

fun convert_loop ::
  "data_frame \<Rightarrow> string list \<Rightarrow> metafield_attr list \<Rightarrow> product_row list \<Rightarrow> error + row list"
  where
  "convert_loop df variant_attrs metafield_attrs [] = Inr []"
| "convert_loop df variant_attrs metafield_attrs (parent_row # rest) =
     and_then
       (create_variant_rows parent_row (children_of df parent_row) variant_attrs metafield_attrs)
       (\<lambda>product_rows.
          and_then (convert_loop df variant_attrs metafield_attrs rest)
            (\<lambda>output_rows. Inr (product_rows @ output_rows)))"

definition convert_wordpress_to_shopify :: "data_frame \<Rightarrow> error + row list" where
  "convert_wordpress_to_shopify df =
     convert_loop df (get_variant_attributes df) (get_metafield_attributes df)
       (parent_products df)"

section \<open>Notions for stating the properties\<close>

text \<open>The combinations that the loop of \<^verbatim>\<open>create_variant_rows\<close> makes a row for, in the order
  of the loop: the tuples of \<^verbatim>\<open>product(*attr_values)\<close> other than the primary one, which is
  made of the first value of every attribute.\<close>

definition non_primary_combinations :: "string list list \<Rightarrow> string list list" where
  "non_primary_combinations attr_values =
     filter (\<lambda>variant_values. variant_values \<noteq> map hd attr_values)
       (product_lists attr_values)"

definition variant_combinations :: "product_row list \<Rightarrow> string list \<Rightarrow> string list list"
  where
  "variant_combinations children_df variant_attrs =
     (let attribute_values = attribute_values_of children_df variant_attrs in
      if attribute_values \<noteq> [] \<and> children_df \<noteq> []
      then non_primary_combinations (map snd attribute_values)
      else [])"

text \<open>The values in the option columns \<open>1, ..., n\<close> of a row.\<close>

definition option_values :: "nat \<Rightarrow> row \<Rightarrow> pyval option list" where
  "option_values n r = map (\<lambda>i. map_of r (option_value_key i)) [1..<Suc n]"

text \<open>The child that the matcher finds for a combination of a product.\<close>

definition matching_child_of ::
  "product_row list \<Rightarrow> string list \<Rightarrow> string list \<Rightarrow> product_row option" where
  "matching_child_of children_df variant_attrs variant_values =
     find_matching_child children_df
       (zip (map fst (attribute_values_of children_df variant_attrs)) variant_values)"

text \<open>The index of the row that was resolved just before the variant row number \<open>j\<close> of a
  product with \<open>k\<close> parsed images: the first row for \<open>j = 0\<close>, else the variant row before
  (the variant rows start at the index \<open>max 1 k\<close>).\<close>

definition previous_row_index :: "nat \<Rightarrow> nat \<Rightarrow> nat" where
  "previous_row_index k j = (if j = 0 then 0 else max 1 k + j - 1)"


definition own_image_usable :: "product_row \<Rightarrow> bool" where
  "own_image_usable child =
     (case parse_images (images child) of
        Inr (img # rest) \<Rightarrow> url img \<noteq> []
      | _ \<Rightarrow> True)"

text \<open>A cell that holds a number.\<close>

definition is_num :: "cell \<Rightarrow> bool" where
  "is_num c = (case c of Num n \<Rightarrow> True | Flt q r \<Rightarrow> True | _ \<Rightarrow> False)"

text \<open>The call of \<^verbatim>\<open>create_variant_rows\<close> that the conversion makes for a parent.\<close>

definition product_rows :: "data_frame \<Rightarrow> product_row \<Rightarrow> error + row list" where
  "product_rows df parent_row =
     create_variant_rows parent_row (children_of df parent_row)
       (get_variant_attributes df) (get_metafield_attributes df)"

section \<open>An example catalog\<close>

text \<open>A shirt with two images and two children: a blue one of size M priced 19.99 and a
  red one of size S that has no price of its own.\<close>

definition shirt :: product_row where
  "shirt = \<lparr>ID = Num 1, post_parent = NaN, post_title = Str ''Shirt'',
     post_excerpt = Str ''A shirt'', post_status = Str ''publish'',
     regular_price = Str ''25.00'', sale_price = NaN,
     images = Str ''http://a.jpg!alt :Red|http://b.jpg'',
     other_columns = [(''tax:product_cat'', Str ''All > Shoes > Running|All > Shoes > Trail''),
       (''meta:attribute_pa_color'', NaN), (''meta:attribute_pa_size'', NaN),
       (''meta:attribute_pa_material'', Str ''Cotton'')]\<rparr>"

definition shirt_blue_m :: product_row where
  "shirt_blue_m = \<lparr>ID = Num 2, post_parent = Num 1, post_title = Str ''Shirt - Blue, M'',
     post_excerpt = NaN, post_status = Str ''publish'',
     regular_price = Str ''19.99'', sale_price = NaN,
     images = NaN,
     other_columns = [(''tax:product_cat'', NaN),
       (''meta:attribute_pa_color'', Str ''Blue''), (''meta:attribute_pa_size'', Str ''M''),
       (''meta:attribute_pa_material'', NaN)]\<rparr>"

definition shirt_red_s :: product_row where
  "shirt_red_s = \<lparr>ID = Num 3, post_parent = Num 1, post_title = Str ''Shirt - Red, S'',
     post_excerpt = NaN, post_status = Str ''publish'',
     regular_price = NaN, sale_price = NaN,
     images = NaN,
     other_columns = [(''tax:product_cat'', NaN),
       (''meta:attribute_pa_color'', Str ''Red''), (''meta:attribute_pa_size'', Str ''S''),
       (''meta:attribute_pa_material'', NaN)]\<rparr>"

definition shop :: data_frame where
  "shop = \<lparr>df_columns = [''ID'', ''post_parent'', ''post_title'', ''post_excerpt'', ''post_status'',
      ''regular_price'', ''sale_price'', ''images'', ''tax:product_cat'',
      ''meta:attribute_pa_color'', ''meta:attribute_pa_size'', ''meta:attribute_pa_material''],
     df_rows = [shirt, shirt_blue_m, shirt_red_s]\<rparr>"


text \<open>A lamp with one image and three children; the blue child has an image of its own,
  the green child has none, and the image cell of the red child is an alt text without a
  URL.\<close>

definition lamp :: product_row where
  "lamp = \<lparr>ID = Num 10, post_parent = NaN, post_title = Str ''Lamp'',
     post_excerpt = NaN, post_status = Str ''publish'',
     regular_price = Str ''40.00'', sale_price = NaN,
     images = Str ''http://lamp.jpg'',
     other_columns = [(''meta:attribute_pa_color'', NaN)]\<rparr>"

definition lamp_blue :: product_row where
  "lamp_blue = \<lparr>ID = Num 11, post_parent = Num 10, post_title = Str ''Lamp - Blue'',
     post_excerpt = NaN, post_status = Str ''publish'',
     regular_price = Str ''35.00'', sale_price = NaN,
     images = Str ''http://blue.jpg'',
     other_columns = [(''meta:attribute_pa_color'', Str ''Blue'')]\<rparr>"

definition lamp_green :: product_row where
  "lamp_green = \<lparr>ID = Num 12, post_parent = Num 10, post_title = Str ''Lamp - Green'',
     post_excerpt = NaN, post_status = Str ''publish'',
     regular_price = NaN, sale_price = NaN,
     images = NaN,
     other_columns = [(''meta:attribute_pa_color'', Str ''Green'')]\<rparr>"

definition lamp_red :: product_row where
  "lamp_red = \<lparr>ID = Num 13, post_parent = Num 10, post_title = Str ''Lamp - Red'',
     post_excerpt = NaN, post_status = Str ''publish'',
     regular_price = NaN, sale_price = NaN,
     images = Str ''!alt :Red'',
     other_columns = [(''meta:attribute_pa_color'', Str ''Red'')]\<rparr>"

text \<open>A mug without images and without children, with a regular and a sale price.\<close>

definition mug :: product_row where
  "mug = \<lparr>ID = Num 20, post_parent = NaN, post_title = Str ''Mug'',
     post_excerpt = NaN, post_status = Str ''draft'',
     regular_price = Str ''7.50'', sale_price = Str ''6.00'',
     images = NaN,
     other_columns = []\<rparr>"

text \<open>A clock whose image cell is a number, in a frame with the mug.\<close>

definition clock :: product_row where
  "clock = \<lparr>ID = Num 21, post_parent = NaN, post_title = Str ''Clock'',
     post_excerpt = NaN, post_status = Str ''publish'',
     regular_price = Str ''30.00'', sale_price = NaN,
     images = Num 5,
     other_columns = []\<rparr>"

definition clock_shop :: data_frame where
  "clock_shop = \<lparr>df_columns = [''ID'', ''post_parent'', ''post_title'', ''post_excerpt'',
      ''post_status'', ''regular_price'', ''sale_price'', ''images''],
     df_rows = [mug, clock]\<rparr>"

text \<open>A scarf with a blue child and a red child; the colour cell of the red child has a
  blank before the word.\<close>

definition scarf :: product_row where
  "scarf = \<lparr>ID = Num 30, post_parent = NaN, post_title = Str ''Scarf'',
     post_excerpt = NaN, post_status = Str ''publish'',
     regular_price = NaN, sale_price = NaN,
     images = NaN,
     other_columns = [(''meta:attribute_pa_color'', NaN)]\<rparr>"

definition scarf_blue :: product_row where
  "scarf_blue = \<lparr>ID = Num 31, post_parent = Num 30, post_title = Str ''Scarf - Blue'',
     post_excerpt = NaN, post_status = Str ''publish'',
     regular_price = Str ''10.00'', sale_price = NaN,
     images = NaN,
     other_columns = [(''meta:attribute_pa_color'', Str ''Blue'')]\<rparr>"

definition scarf_red :: product_row where
  "scarf_red = \<lparr>ID = Num 32, post_parent = Num 30, post_title = Str ''Scarf - Red'',
     post_excerpt = NaN, post_status = Str ''publish'',
     regular_price = Str ''12.00'', sale_price = NaN,
     images = NaN,
     other_columns = [(''meta:attribute_pa_color'', Str '' Red'')]\<rparr>"

text \<open>A vase without children.  Its image cell has blanks, a tab and a no-break space
  around its two images, and segments that are empty or blank.\<close>

definition vase :: product_row where
  "vase = \<lparr>ID = Num 40, post_parent = NaN, post_title = Str ''Vase'',
     post_excerpt = NaN, post_status = Str ''publish'',
     regular_price = Str ''15.00'', sale_price = NaN,
     images = Str ('' http://a.jpg ! alt :Red | |http://b.jpg'' @ [char_of (9 :: nat)] @ ''||''
                   @ [char_of (160 :: nat)]),
     other_columns = []\<rparr>"

definition vase_shop :: data_frame where
  "vase_shop = \<lparr>df_columns = [''ID'', ''post_parent'', ''post_title'', ''post_excerpt'',
      ''post_status'', ''regular_price'', ''sale_price'', ''images''],
     df_rows = [vase]\<rparr>"

text \<open>A bowl with two images whose only colour column is spelt \<^verbatim>\<open>Color\<close>; the first child
  is the green one, the second the amber one.  The column \<^verbatim>\<open>post_parent\<close> of a frame with a
  parent has a missing cell, so the children refer to the parent by a float.\<close>

definition bowl :: product_row where
  "bowl = \<lparr>ID = Num 50, post_parent = NaN, post_title = Str ''Bowl'',
     post_excerpt = NaN, post_status = Str ''publish'',
     regular_price = NaN, sale_price = NaN,
     images = Str ''http://front.jpg!alt :Front|http://back.jpg!alt :Back'',
     other_columns = [(''meta:attribute_pa_Color'', NaN)]\<rparr>"

definition bowl_green :: product_row where
  "bowl_green = \<lparr>ID = Num 51, post_parent = Flt 50 ''50.0'', post_title = Str ''Bowl - Green'',
     post_excerpt = NaN, post_status = Str ''publish'',
     regular_price = Str ''8.00'', sale_price = NaN,
     images = NaN,
     other_columns = [(''meta:attribute_pa_Color'', Str ''Green'')]\<rparr>"

definition bowl_amber :: product_row where
  "bowl_amber = \<lparr>ID = Num 52, post_parent = Flt 50 ''50.0'', post_title = Str ''Bowl - Amber'',
     post_excerpt = NaN, post_status = Str ''publish'',
     regular_price = Str ''9.00'', sale_price = NaN,
     images = NaN,
     other_columns = [(''meta:attribute_pa_Color'', Str ''Amber'')]\<rparr>"

definition bowl_shop :: data_frame where
  "bowl_shop = \<lparr>df_columns = [''ID'', ''post_parent'', ''post_title'', ''post_excerpt'',
      ''post_status'', ''regular_price'', ''sale_price'', ''images'', ''meta:attribute_pa_Color''],
     df_rows = [bowl, bowl_green, bowl_amber]\<rparr>"

text \<open>A kite whose export has the two colour columns \<^verbatim>\<open>Color\<close> and \<^verbatim>\<open>color\<close>; its child is
  \<^verbatim>\<open>Aqua\<close> in the first and \<^verbatim>\<open>Yak\<close> in the second.\<close>

definition kite :: product_row where
  "kite = \<lparr>ID = Num 60, post_parent = NaN, post_title = Str ''Kite'',
     post_excerpt = NaN, post_status = Str ''publish'',
     regular_price = NaN, sale_price = NaN,
     images = Str ''http://kite.jpg!alt :Front'',
     other_columns = [(''meta:attribute_pa_Color'', NaN), (''meta:attribute_pa_color'', NaN)]\<rparr>"

definition kite_child :: product_row where
  "kite_child = \<lparr>ID = Num 61, post_parent = Flt 60 ''60.0'', post_title = Str ''Kite - Aqua'',
     post_excerpt = NaN, post_status = Str ''publish'',
     regular_price = Str ''20.00'', sale_price = NaN,
     images = NaN,
     other_columns = [(''meta:attribute_pa_Color'', Str ''Aqua''),
       (''meta:attribute_pa_color'', Str ''Yak'')]\<rparr>"

definition kite_shop :: data_frame where
  "kite_shop = \<lparr>df_columns = [''ID'', ''post_parent'', ''post_title'', ''post_excerpt'',
      ''post_status'', ''regular_price'', ''sale_price'', ''images'', ''meta:attribute_pa_Color'',
      ''meta:attribute_pa_color''],
     df_rows = [kite, kite_child]\<rparr>"

text \<open>A child of a boot whose size column is numeric with a missing cell somewhere, so
  that its own cell is the float 40.\<close>

definition boot_40 :: product_row where
  "boot_40 = \<lparr>ID = Num 71, post_parent = Flt 70 ''70.0'', post_title = Str ''Boot - 40'',
     post_excerpt = NaN, post_status = Str ''publish'',
     regular_price = Str ''90.00'', sale_price = NaN,
     images = NaN,
     other_columns = [(''meta:attribute_pa_size'', Flt 40 ''40.0'')]\<rparr>"

section \<open>Sequencing and dictionaries\<close>

lemma and_then_Inr_iff: "and_then m f = Inr y \<longleftrightarrow> (\<exists>x. m = Inr x \<and> f x = Inr y)"
  by (cases m) (auto simp: and_then_def)

lemma and_then_Inr [simp]: "and_then (Inr x) f = f x"
  by (simp add: and_then_def)

lemma and_then_Inl [simp]: "and_then (Inl e) f = Inl e"
  by (simp add: and_then_def)

lemma has_key_iff: "has_key d k \<longleftrightarrow> k \<in> fst ` set d"
  by (simp add: has_key_def map_of_eq_None_iff)

lemma has_key_update: "has_key (AList.update k v d) k' \<longleftrightarrow> k' = k \<or> has_key d k'"
  by (auto simp: has_key_iff AList.dom_update)

lemma map_of_update: "map_of (AList.update k v d) k' = (if k' = k then Some v else map_of d k')"
  by (simp add: AList.update_conv')

lemma field_name_last:
  "a \<in> set (metafield_attrs_loop cols) \<Longrightarrow> last (field_name a) = CHR '')''"
  by (induction cols) (auto simp: Let_def split: if_splits)

lemma field_name_last':
  "a \<in> set (get_metafield_attributes df) \<Longrightarrow> last (field_name a) = CHR '')''"
  by (simp add: get_metafield_attributes_def field_name_last)

lemma option_name_key_last: "last (option_name_key k) = CHR ''e''"
  by (simp add: option_name_key_def)

lemma option_value_key_last: "last (option_value_key k) = CHR ''e''"
  by (simp add: option_value_key_def)

lemma option_key_neq [simp]:
  "option_name_key k \<noteq> ''Image Position''" "option_value_key k \<noteq> ''Image Position''"
  "option_name_key k \<noteq> ''Image Src''" "option_value_key k \<noteq> ''Image Src''"
  "option_name_key k \<noteq> ''Image Alt Text''" "option_value_key k \<noteq> ''Image Alt Text''"
  "option_name_key k \<noteq> ''Variant Price''" "option_value_key k \<noteq> ''Variant Price''"
  "option_name_key k \<noteq> ''Variant Compare At Price''" "option_value_key k \<noteq> ''Variant Compare At Price''"
  "option_name_key k \<noteq> ''Variant Image''" "option_value_key k \<noteq> ''Variant Image''"
  by (simp_all add: option_name_key_def option_value_key_def)

lemma has_key_add_metafields:
  "has_key (add_metafields p ch ma base) k \<longleftrightarrow> has_key base k \<or> k \<in> field_name ` set ma"
  by (induction ma arbitrary: base) (auto simp: has_key_update)

lemma has_key_first_row_options:
  "has_key (first_row_options idx av r) k \<Longrightarrow>
   has_key r k \<or> k = ''Image Alt Text'' \<or> (\<exists>i. k = option_name_key i \<or> k = option_value_key i)"
  by (induction idx av r rule: first_row_options.induct)
     (auto simp: has_key_update Let_def split: if_splits)

lemma map_of_first_row_options:
  "k \<noteq> ''Image Alt Text'' \<Longrightarrow> (\<forall>i. k \<noteq> option_name_key i \<and> k \<noteq> option_value_key i) \<Longrightarrow>
   map_of (first_row_options idx av r) k = map_of r k"
  by (induction idx av r rule: first_row_options.induct)
     (auto simp: map_of_update Let_def)

lemma has_key_variant_options:
  "has_key (variant_options idx zs r) k \<Longrightarrow>
   has_key r k \<or> (\<exists>i. k = option_name_key i \<or> k = option_value_key i)"
  by (induction idx zs r rule: variant_options.induct)
     (auto simp: has_key_update Let_def split: if_splits)

lemma map_of_variant_options:
  "(\<forall>i. k \<noteq> option_name_key i \<and> k \<noteq> option_value_key i) \<Longrightarrow>
   map_of (variant_options idx zs r) k = map_of r k"
  by (induction idx zs r rule: variant_options.induct)
     (auto simp: map_of_update Let_def)

lemma has_key_copy_metafields:
  "copy_metafields base ma r = Inr r' \<Longrightarrow>
   has_key r' k = (has_key r k \<or> k \<in> field_name ` set ma)"
proof (induction ma arbitrary: r)
  case Nil
  then show ?case by simp
next
  case (Cons a ma)
  from Cons.prems obtain x where
    "copy_metafields base ma (AList.update (field_name a) x r) = Inr r'"
    by (auto simp: and_then_Inr_iff)
  from Cons.IH [OF this] show ?case
    by (auto simp: has_key_update)
qed

lemma map_of_copy_metafields:
  "copy_metafields base ma r = Inr r' \<Longrightarrow> k \<notin> field_name ` set ma \<Longrightarrow>
   map_of r' k = map_of r k"
  by (induction ma arbitrary: r) (auto simp: and_then_Inr_iff map_of_update)

section \<open>The layout of the rows of one product\<close>

lemma create_variant_rows_InrD:
  assumes "create_variant_rows p ch va ma = Inr rows"
  obtains info tags imgs first prev imgrows vrows where
    "extract_category_info (tax_product_cat p) = Inr info"
    "extract_tags (tax_product_cat p) False = Inr tags"
    "parse_images (images p) = Inr imgs"
    "make_first_row (make_base_row p ch ma info tags) ch imgs
       (attribute_values_of ch va) (initial_previous p) = Inr (first, prev)"
    "image_rows p (make_base_row p ch ma info tags) ma info 2 (tl imgs) = Inr imgrows"
    "(if attribute_values_of ch va \<noteq> [] \<and> ch \<noteq> []
      then variant_rows_loop (make_base_row p ch ma info tags) ch imgs
             (map fst (attribute_values_of ch va))
             (map (\<lambda>v. hd v) (map snd (attribute_values_of ch va))) prev
             (product_lists (map snd (attribute_values_of ch va)))
      else Inr []) = Inr vrows"
    "rows = first # imgrows @ vrows"
  using assms unfolding create_variant_rows_def Let_def and_then_Inr_iff
  by (auto simp: and_then_Inr_iff split: prod.splits)

lemma image_rows_length:
  "image_rows p base ma info idx imgs = Inr rs \<Longrightarrow> length rs = length imgs"
  by (induction imgs arbitrary: idx rs) (auto simp: and_then_Inr_iff)

lemma variant_rows_loop_filter:
  "variant_rows_loop base ch imgs names primary prev combos =
   variant_rows_loop base ch imgs names primary prev (filter (\<lambda>c. c \<noteq> primary) combos)"
  by (induction combos arbitrary: prev) (auto simp: and_then_def split: sum.splits)

lemma variant_rows_loop_length:
  "variant_rows_loop base ch imgs names primary prev combos = Inr rs \<Longrightarrow>
   length rs = length (filter (\<lambda>c. c \<noteq> primary) combos)"
  by (induction combos arbitrary: prev rs) (auto simp: and_then_Inr_iff split: if_splits)

lemma has_key_make_base_row:
  "has_key (make_base_row p ch ma info tags) k \<longleftrightarrow>
     k \<in> {''Handle'', ''Title'', ''Body (HTML)'', ''Published'', ''Tags'', category_key,
          sub_category_key} \<or> k \<in> field_name ` set ma"
  unfolding make_base_row_def has_key_add_metafields
  by (auto simp: has_key_iff)

lemma has_key_make_image_row:
  assumes "make_image_row p base ma info idx img = Inr r"
  shows "has_key r k \<longleftrightarrow>
     k \<in> {''Handle'', ''Image Src'', ''Image Alt Text'', ''Image Position'', ''Tags'',
          category_key, sub_category_key} \<or> k \<in> field_name ` set ma"
proof -
  from assms obtain tags r0 where
    c: "copy_metafields base ma
          [(''Handle'', Cell (post_title p)), (''Image Src'', Cell (Str (url img))),
           (''Image Alt Text'', Cell (Str (alt img))),
           (''Image Position'', Cell (Num (int idx))), (''Tags'', tags)] = Inr r0"
    and r: "r = AList.update sub_category_key (Cell (Str (subcategory info)))
                 (AList.update category_key (Cell (Str (category info))) r0)"
    by (auto simp: make_image_row_def and_then_Inr_iff)
  show ?thesis
    unfolding r has_key_update has_key_copy_metafields [OF c]
    by (auto simp: has_key_iff)
qed

lemma map_of_make_image_row:
  assumes "make_image_row p base ma info idx img = Inr r"
      and "k \<notin> field_name ` set ma"
  shows "k = ''Image Src'' \<Longrightarrow> map_of r k = Some (Cell (Str (url img)))"
    and "k = ''Image Alt Text'' \<Longrightarrow> map_of r k = Some (Cell (Str (alt img)))"
    and "k = ''Image Position'' \<Longrightarrow> map_of r k = Some (Cell (Num (int idx)))"
proof -
  from assms(1) obtain tags r0 where
    c: "copy_metafields base ma
          [(''Handle'', Cell (post_title p)), (''Image Src'', Cell (Str (url img))),
           (''Image Alt Text'', Cell (Str (alt img))),
           (''Image Position'', Cell (Num (int idx))), (''Tags'', tags)] = Inr r0"
    and r: "r = AList.update sub_category_key (Cell (Str (subcategory info)))
                 (AList.update category_key (Cell (Str (category info))) r0)"
    by (auto simp: make_image_row_def and_then_Inr_iff)
  note m = map_of_copy_metafields [OF c assms(2)]
  show "k = ''Image Src'' \<Longrightarrow> map_of r k = Some (Cell (Str (url img)))"
    using m by (simp add: r map_of_update category_key_def sub_category_key_def)
  show "k = ''Image Alt Text'' \<Longrightarrow> map_of r k = Some (Cell (Str (alt img)))"
    using m by (simp add: r map_of_update category_key_def sub_category_key_def)
  show "k = ''Image Position'' \<Longrightarrow> map_of r k = Some (Cell (Num (int idx)))"
    using m by (simp add: r map_of_update category_key_def sub_category_key_def)
qed

lemma image_rows_nth:
  "image_rows p base ma info idx imgs = Inr rs \<Longrightarrow> i < length imgs \<Longrightarrow>
   make_image_row p base ma info (idx + i) (imgs ! i) = Inr (rs ! i)"
proof (induction imgs arbitrary: idx rs i)
  case Nil
  then show ?case by simp
next
  case (Cons img imgs)
  from Cons.prems(1) obtain r rest where
    r: "make_image_row p base ma info idx img = Inr r"
    and rest: "image_rows p base ma info (Suc idx) imgs = Inr rest"
    and rs: "rs = r # rest"
    by (auto simp: and_then_Inr_iff)
  show ?case
  proof (cases i)
    case 0
    then show ?thesis using r rs by simp
  next
    case (Suc j)
    with Cons.prems(2) have "j < length imgs" by simp
    from Cons.IH [OF rest this] show ?thesis using Suc rs by simp
  qed
qed

lemma has_key_with_first_image:
  "has_key (with_first_image imgs r) k \<Longrightarrow>
   has_key r k \<or> k \<in> {''Image Src'', ''Image Alt Text'', ''Image Position''}"
  by (auto simp: with_first_image_def has_key_update split: list.splits)

lemma has_key_make_first_row:
  assumes "make_first_row base ch imgs av prev = Inr (first, prev')"
      and "has_key first k"
  shows "has_key base k \<or>
         k \<in> {''Image Src'', ''Image Alt Text'', ''Image Position'', ''Variant Price'',
              ''Variant Compare At Price'', ''Variant Image''} \<or>
         (ch \<noteq> [] \<and> (\<exists>i. k = option_name_key i \<or> k = option_value_key i))"
proof (cases ch)
  case Nil
  with assms show ?thesis
    by (auto simp: make_first_row_def has_key_update dest: has_key_with_first_image)
next
  case (Cons c cs)
  with assms show ?thesis
    by (auto simp: make_first_row_def Let_def and_then_Inr_iff has_key_update
             split: if_splits
             dest!: has_key_first_row_options has_key_with_first_image)
qed

lemma has_key_resolve_variant:
  assumes "resolve_variant base ch imgs names prev vv = Inr r" and "has_key r k"
  shows "has_key base k \<or>
         k \<in> {''Variant Price'', ''Variant Compare At Price'', ''Variant Image''}"
  using assms
  by (auto simp: resolve_variant_def Let_def and_then_Inr_iff has_key_update
           split: option.splits if_splits)

lemma has_key_variant_rows_loop:
  "variant_rows_loop base ch imgs names primary prev combos = Inr rs \<Longrightarrow> r \<in> set rs \<Longrightarrow>
   has_key r k \<Longrightarrow>
   has_key base k \<or> k \<in> {''Variant Price'', ''Variant Compare At Price'', ''Variant Image''}
     \<or> (\<exists>i. k = option_name_key i \<or> k = option_value_key i)"
proof (induction combos arbitrary: prev rs)
  case Nil
  then show ?case by simp
next
  case (Cons vv combos)
  show ?case
  proof (cases "vv = primary")
    case True
    with Cons show ?thesis by simp
  next
    case False
    with Cons.prems(1) obtain vrow rest where
      v: "resolve_variant base ch imgs names prev vv = Inr vrow"
      and l: "variant_rows_loop base ch imgs names primary (carried_from vrow) combos = Inr rest"
      and rs: "rs = variant_options 1 (zip names vv) vrow # rest"
      by (auto simp: and_then_Inr_iff)
    from Cons.prems(2) rs consider "r = variant_options 1 (zip names vv) vrow" | "r \<in> set rest"
      by auto
    then show ?thesis
    proof cases
      case 1
      with Cons.prems(3) has_key_variant_options [of 1 "zip names vv" vrow k]
        has_key_resolve_variant [OF v, of k]
      show ?thesis by blast
    next
      case 2
      from Cons.IH [OF l 2 Cons.prems(3)] show ?thesis .
    qed
  qed
qed

section \<open>Attribute values and the variant matrix\<close>

lemma sorted_set_props: "distinct (sorted_set xs)" "sorted (sorted_set xs)" "set (sorted_set xs) = set xs"
  by (simp_all add: sorted_set_def)

lemma str_nat_nonempty: "str_nat n \<noteq> []"
  by (subst str_nat.simps) simp

lemma str_int_nonempty: "str_int i \<noteq> []" "[] \<noteq> str_int i"
  by (auto simp: str_int_def str_nat_nonempty dest: sym)

lemma option_values_loop_nonempty: "[] \<notin> set (option_values_loop rs col)"
  by (induction rs) (auto simp: pipe_pieces_def str_int_nonempty split: option.splits cell.splits)

lemma get_option_values_props:
  "distinct (get_option_values ch a)" "sorted (get_option_values ch a)"
  "[] \<notin> set (get_option_values ch a)"
  by (simp_all add: get_option_values_def sorted_set_props option_values_loop_nonempty)

lemma set_update_subset: "set (AList.update k v al) \<subseteq> insert (k, v) (set al)"
  by (induction al) auto

lemma collect_attribute_values_entries:
  "(a, vs) \<in> set (collect_attribute_values ch va acc) \<Longrightarrow>
   (a, vs) \<in> set acc \<or> (vs = get_option_values ch a \<and> vs \<noteq> [] \<and> a \<in> set va)"
proof (induction va arbitrary: acc)
  case Nil
  then show ?case by simp
next
  case (Cons b va)
  let ?vals = "get_option_values ch b"
  let ?acc = "if ?vals \<noteq> [] then AList.update b ?vals acc else acc"
  from Cons.prems have "(a, vs) \<in> set (collect_attribute_values ch va ?acc)"
    by (simp add: Let_def)
  from Cons.IH [OF this]
  consider "(a, vs) \<in> set ?acc" | "vs = get_option_values ch a \<and> vs \<noteq> [] \<and> a \<in> set va"
    by blast
  then show ?case
  proof cases
    case 1
    have "set (AList.update b ?vals acc) \<subseteq> insert (b, ?vals) (set acc)"
      by (rule set_update_subset)
    with 1 show ?thesis by (auto split: if_splits)
  next
    case 2
    then show ?thesis by auto
  qed
qed

lemma attribute_values_entries:
  "(a, vs) \<in> set (attribute_values_of ch va) \<Longrightarrow>
   vs = get_option_values ch a \<and> vs \<noteq> [] \<and> distinct vs \<and> sorted vs \<and> [] \<notin> set vs \<and> a \<in> set va"
  using collect_attribute_values_entries [of a vs ch va "[]"]
  by (auto simp: get_option_values_props attribute_values_of_def)

lemma collect_attribute_values_no_children:
  "collect_attribute_values [] va acc = acc"
  by (induction va arbitrary: acc) (auto simp: get_option_values_def sorted_set_def)

lemma primary_in_product_lists:
  "\<forall>vs \<in> set vss. vs \<noteq> [] \<Longrightarrow> map hd vss \<in> set (product_lists vss)"
  by (induction vss) auto

lemma filter_neq_absent: "p \<notin> set xs \<Longrightarrow> filter (\<lambda>c. c \<noteq> p) xs = xs"
  by (induction xs) auto

lemma length_filter_neq:
  "distinct xs \<Longrightarrow> p \<in> set xs \<Longrightarrow> length (filter (\<lambda>c. c \<noteq> p) xs) = length xs - 1"
proof (induction xs)
  case Nil
  then show ?case by simp
next
  case (Cons x xs)
  show ?case
  proof (cases "x = p")
    case True
    with Cons.prems show ?thesis by (simp add: filter_neq_absent)
  next
    case False
    with Cons.prems have "p \<in> set xs" "distinct xs" by auto
    with Cons.IH have "length (filter (\<lambda>c. c \<noteq> p) xs) = length xs - 1" by simp
    moreover from \<open>p \<in> set xs\<close> have "0 < length xs" by (rule length_pos_if_in_set)
    ultimately show ?thesis using False by simp
  qed
qed

lemma length_product_lists_prod: "length (product_lists vss) = prod_list (map length vss)"
  by (induction vss) (auto simp: length_concat comp_def sum_list_triv)

lemma non_primary_count:
  assumes "\<forall>vs \<in> set vss. vs \<noteq> [] \<and> distinct vs"
  shows "length (filter (\<lambda>c. c \<noteq> map hd vss) (product_lists vss)) = prod_list (map length vss) - 1"
proof -
  have "distinct (product_lists vss)" using assms by (intro distinct_product_lists) auto
  moreover have "map hd vss \<in> set (product_lists vss)"
    using assms by (intro primary_in_product_lists) auto
  ultimately show ?thesis
    by (simp add: length_filter_neq length_product_lists_prod)
qed

lemma attribute_values_no_children: "attribute_values_of [] va = []"
  by (simp add: attribute_values_of_def collect_attribute_values_no_children)

lemma variant_part_length:
  assumes "(if av \<noteq> [] \<and> ch \<noteq> []
      then variant_rows_loop base ch imgs (map fst av) (map (\<lambda>v. hd v) (map snd av)) prev
             (product_lists (map snd av))
      else Inr []) = Inr vrows"
    and "\<forall>(a, vs) \<in> set av. vs \<noteq> [] \<and> distinct vs"
    and "ch = [] \<Longrightarrow> av = []"
  shows "length vrows = prod_list (map (\<lambda>(a, vs). length vs) av) - 1"
proof (cases "av \<noteq> [] \<and> ch \<noteq> []")
  case True
  with assms(1) have "length vrows =
      length (filter (\<lambda>c. c \<noteq> map hd (map snd av)) (product_lists (map snd av)))"
    by (auto dest: variant_rows_loop_length)
  also have "\<dots> = prod_list (map length (map snd av)) - 1"
    using assms(2) by (intro non_primary_count) auto
  also have "map length (map snd av) = map (\<lambda>(a, vs). length vs) av"
    by (simp add: case_prod_beta comp_def)
  finally show ?thesis .
next
  case False
  with assms(3) have "av = []" by auto
  with assms(1) show ?thesis by auto
qed

section \<open>When the assembler returns\<close>

lemma parse_images_returns: "\<not> is_num c \<Longrightarrow> \<exists>imgs. parse_images c = Inr imgs"
  by (cases c) (simp_all add: parse_images_def is_num_def)

lemma extract_tags_returns: "\<not> is_num c \<Longrightarrow> \<exists>tags. extract_tags c m = Inr tags"
  by (cases c) (simp_all add: extract_tags_def is_num_def)

lemma extract_category_info_returns:
  "\<not> is_num c \<Longrightarrow> \<exists>info. extract_category_info c = Inr info"
  by (cases c) (simp_all add: extract_category_info_def is_num_def split: list.splits)

lemma get_variant_image_returns:
  assumes "\<not> is_num (images child)"
  shows "\<exists>img. get_variant_image child imgs vals prev = Inr img"
proof -
  from parse_images_returns [OF assms] obtain own where
    "parse_images (images child) = Inr own" by blast
  then show ?thesis
    by (auto simp: get_variant_image_def split: option.splits)
qed

lemma make_first_row_returns:
  assumes "\<forall>c \<in> set ch. \<not> is_num (images c)"
  shows "\<exists>res. make_first_row base ch imgs av prev = Inr res"
proof (cases ch)
  case Nil
  then show ?thesis by (simp add: make_first_row_def)
next
  case (Cons c cs)
  with assms have "\<not> is_num (images c)" by simp
  from get_variant_image_returns [OF this, of imgs "[]" "Cell (Str [])"]
  obtain img where "get_variant_image c imgs [] (Cell (Str [])) = Inr img" by blast
  with Cons show ?thesis by (simp add: make_first_row_def Let_def)
qed

lemma copy_metafields_returns:
  "\<forall>a \<in> set ma. has_key base (field_name a) \<Longrightarrow> \<exists>r'. copy_metafields base ma r = Inr r'"
proof (induction ma arbitrary: r)
  case Nil
  then show ?case by simp
next
  case (Cons a ma)
  from Cons.prems obtain v where "dict_item base (field_name a) = Inr v"
    by (auto simp: has_key_def dict_item_def)
  moreover from Cons.prems have "\<forall>a \<in> set ma. has_key base (field_name a)" by simp
  from Cons.IH [OF this] obtain r' where
    "copy_metafields base ma (AList.update (field_name a) v r) = Inr r'" by blast
  ultimately show ?case by simp
qed

lemma make_image_row_returns:
  assumes "has_key base ''Tags''" and "\<forall>a \<in> set ma. has_key base (field_name a)"
  shows "\<exists>r. make_image_row p base ma info idx img = Inr r"
proof -
  from assms(1) obtain tags where t: "dict_item base ''Tags'' = Inr tags"
    by (auto simp: has_key_def dict_item_def)
  from copy_metafields_returns [OF assms(2)] obtain r0 where
    "copy_metafields base ma
       [(''Handle'', Cell (post_title p)), (''Image Src'', Cell (Str (url img))),
        (''Image Alt Text'', Cell (Str (alt img))),
        (''Image Position'', Cell (Num (int idx))), (''Tags'', tags)] = Inr r0"
    by blast
  with t show ?thesis by (simp add: make_image_row_def)
qed

lemma image_rows_returns:
  assumes "has_key base ''Tags''" and "\<forall>a \<in> set ma. has_key base (field_name a)"
  shows "\<exists>rs. image_rows p base ma info idx imgs = Inr rs"
proof (induction imgs arbitrary: idx)
  case Nil
  then show ?case by simp
next
  case (Cons img imgs)
  from make_image_row_returns [OF assms] obtain r where
    "make_image_row p base ma info idx img = Inr r" by blast
  moreover from Cons.IH obtain rs where
    "image_rows p base ma info (Suc idx) imgs = Inr rs" by blast
  ultimately show ?case by simp
qed

lemma find_matching_child_member:
  "find_matching_child ch combination = Some c \<Longrightarrow> c \<in> set ch"
  by (induction ch) (auto split: if_splits)

lemma resolve_variant_returns:
  assumes "\<forall>c \<in> set ch. \<not> is_num (images c)"
  shows "\<exists>r. resolve_variant base ch imgs names prev vv = Inr r"
proof (cases "find_matching_child ch (zip names vv)")
  case None
  then show ?thesis by (simp add: resolve_variant_def)
next
  case (Some c)
  from find_matching_child_member [OF Some] assms have "\<not> is_num (images c)" by simp
  from get_variant_image_returns [OF this, of imgs vv "variant_image prev"]
  obtain img where "get_variant_image c imgs vv (variant_image prev) = Inr img" by blast
  with Some show ?thesis by (simp add: resolve_variant_def Let_def)
qed

lemma variant_rows_loop_returns:
  assumes "\<forall>c \<in> set ch. \<not> is_num (images c)"
  shows "\<exists>rs. variant_rows_loop base ch imgs names primary prev combos = Inr rs"
proof (induction combos arbitrary: prev)
  case Nil
  then show ?case by simp
next
  case (Cons vv combos)
  show ?case
  proof (cases "vv = primary")
    case True
    with Cons.IH show ?thesis by simp
  next
    case False
    from resolve_variant_returns [OF assms] obtain r where
      r: "resolve_variant base ch imgs names prev vv = Inr r" by blast
    from Cons.IH obtain rs where
      "variant_rows_loop base ch imgs names primary (carried_from r) combos = Inr rs" by blast
    with r False show ?thesis by simp
  qed
qed

text \<open>On text cells the assembler returns: it raises only when the taxonomy cell or an
  image cell holds a number, and its lookups in the base row never miss.\<close>

lemma create_variant_rows_returns:
  assumes "\<not> is_num (tax_product_cat p)" and "\<not> is_num (images p)"
      and "\<forall>c \<in> set ch. \<not> is_num (images c)"
  shows "\<exists>rows. create_variant_rows p ch va ma = Inr rows"
proof -
  from extract_category_info_returns [OF assms(1)] obtain info where
    i: "extract_category_info (tax_product_cat p) = Inr info" by blast
  from extract_tags_returns [OF assms(1)] obtain tags where
    t: "extract_tags (tax_product_cat p) False = Inr tags" by blast
  from parse_images_returns [OF assms(2)] obtain imgs where
    m: "parse_images (images p) = Inr imgs" by blast
  let ?base = "make_base_row p ch ma info tags"
  let ?av = "attribute_values_of ch va"
  from make_first_row_returns [OF assms(3)] obtain first prev where
    f: "make_first_row ?base ch imgs ?av (initial_previous p) = Inr (first, prev)"
    by (metis surj_pair)
  have "has_key ?base ''Tags''" "\<forall>a \<in> set ma. has_key ?base (field_name a)"
    by (simp_all add: has_key_make_base_row)
  from image_rows_returns [OF this] obtain imgrows where
    r: "image_rows p ?base ma info 2 (tl imgs) = Inr imgrows" by blast
  from variant_rows_loop_returns [OF assms(3)] obtain vrows where
    v: "variant_rows_loop ?base ch imgs (map fst ?av) (map (\<lambda>v. hd v) (map snd ?av)) prev
          (product_lists (map snd ?av)) = Inr vrows" by blast
  show ?thesis
    unfolding create_variant_rows_def
    using i t m f r v by (simp add: Let_def)
qed

section \<open>The number of rows of a product\<close>

text \<open>
  Claim C1.  When \<^verbatim>\<open>create_variant_rows\<close> returns, the number of rows is
  \<open>1 + max(0, k - 1) + (c1 * ... * cn - 1)\<close>, where \<open>k\<close> is the number of parsed
  parent images and \<open>c1, ..., cn\<close> are the sizes of the value lists of the variant
  attributes that have values among the children (each list is the sorted list of the
  distinct values, so its length is the size of the value set).  With no such attribute
  the count is \<open>1 + max(0, k - 1)\<close>.  (By \<open>create_variant_rows_returns\<close> the function
  returns for every product whose taxonomy and image cells are not numbers.)
\<close>

theorem row_count:
  assumes "create_variant_rows parent_row children_df variant_attrs metafield_attrs = Inr rows"
      and "parse_images (images parent_row) = Inr parent_images"
  shows "length rows = 1 + (length parent_images - 1)
           + (prod_list (map (\<lambda>(a, vs). length vs)
                (attribute_values_of children_df variant_attrs)) - 1)
         \<and> (attribute_values_of children_df variant_attrs = []
              \<longrightarrow> length rows = 1 + (length parent_images - 1))
         \<and> list_all (\<lambda>(a, vs). vs = get_option_values children_df a \<and> vs \<noteq> [] \<and> distinct vs)
              (attribute_values_of children_df variant_attrs)"
proof -
  let ?av = "attribute_values_of children_df variant_attrs"
  have entries: "\<forall>(a, vs) \<in> set ?av. vs = get_option_values children_df a \<and> vs \<noteq> [] \<and> distinct vs"
    using attribute_values_entries by blast
  from assms(1) obtain info tags imgs first prev imgrows vrows where
    imgs: "parse_images (images parent_row) = Inr imgs"
    and ir: "image_rows parent_row (make_base_row parent_row children_df metafield_attrs info tags)
               metafield_attrs info 2 (tl imgs) = Inr imgrows"
    and vr: "(if ?av \<noteq> [] \<and> children_df \<noteq> []
      then variant_rows_loop (make_base_row parent_row children_df metafield_attrs info tags)
             children_df imgs (map fst ?av) (map (\<lambda>v. hd v) (map snd ?av)) prev
             (product_lists (map snd ?av))
      else Inr []) = Inr vrows"
    and rows: "rows = first # imgrows @ vrows"
    by (rule create_variant_rows_InrD)
  from imgs assms(2) have [simp]: "imgs = parent_images" by simp
  have "length imgrows = length parent_images - 1"
    using image_rows_length [OF ir] by simp
  moreover have "length vrows = prod_list (map (\<lambda>(a, vs). length vs) ?av) - 1"
    using vr entries by (intro variant_part_length [OF vr]) (auto simp: attribute_values_no_children)
  ultimately have count: "length rows = 1 + (length parent_images - 1)
           + (prod_list (map (\<lambda>(a, vs). length vs) ?av) - 1)"
    by (simp add: rows)
  from count have "?av = [] \<longrightarrow> length rows = 1 + (length parent_images - 1)"
    by auto
  moreover from entries have "list_all (\<lambda>(a, vs). vs = get_option_values children_df a \<and> vs \<noteq> [] \<and> distinct vs) ?av"
    by (simp add: list_all_iff)
  ultimately show ?thesis using count by blast
qed

theorem row_count_witness:
  "\<exists>rows. create_variant_rows shirt [shirt_blue_m, shirt_red_s] [''color'', ''size''] [] = Inr rows
     \<and> length rows = 5"
proof -
  have "\<not> isl (create_variant_rows shirt [shirt_blue_m, shirt_red_s] [''color'', ''size''] [])"
    by code_simp
  then obtain rows where
    r: "create_variant_rows shirt [shirt_blue_m, shirt_red_s] [''color'', ''size''] [] = Inr rows"
    by (cases "create_variant_rows shirt [shirt_blue_m, shirt_red_s] [''color'', ''size''] []") auto
  have i: "parse_images (images shirt) =
      Inr [\<lparr>url = ''http://a.jpg'', alt = ''Red''\<rparr>, \<lparr>url = ''http://b.jpg'', alt = []\<rparr>]"
    by code_simp
  have av: "attribute_values_of [shirt_blue_m, shirt_red_s] [''color'', ''size''] =
      [(''color'', [''Blue'', ''Red'']), (''size'', [''M'', ''S''])]"
    by code_simp
  from row_count [OF r i] have "length rows = 5"
    by (simp add: av)
  with r show ?thesis by blast
qed

section \<open>Rows by position\<close>

lemma find_alt_find:
  "find_alt parts =
     (case find (\<lambda>part. startswith (strip part) ''alt :'') parts of
        None \<Rightarrow> [] | Some part \<Rightarrow> strip (replace ''alt :'' [] part))"
  by (induction parts) auto

lemma parse_segments_map:
  "parse_segments segs =
     map (\<lambda>seg. \<lparr>url = strip (hd (split_on CHR ''!'' seg)),
                  alt = find_alt (tl (split_on CHR ''!'' seg))\<rparr>)
       (filter (\<lambda>seg. seg \<noteq> []) (map strip segs))"
  by (induction segs) (auto simp: Let_def)

lemma map_of_with_first_image:
  "map_of (with_first_image (img # rest) r) ''Image Src'' = Some (Cell (Str (url img)))"
  "map_of (with_first_image (img # rest) r) ''Image Alt Text'' = Some (Cell (Str (alt img)))"
  "map_of (with_first_image (img # rest) r) ''Image Position'' = Some (Cell (Num 1))"
  by (simp_all add: with_first_image_def map_of_update)

lemma option_key_neq' [simp]:
  "''Image Position'' \<noteq> option_name_key k" "''Image Position'' \<noteq> option_value_key k"
  "''Image Src'' \<noteq> option_name_key k" "''Image Src'' \<noteq> option_value_key k"
  "''Image Alt Text'' \<noteq> option_name_key k" "''Image Alt Text'' \<noteq> option_value_key k"
  "''Variant Price'' \<noteq> option_name_key k" "''Variant Price'' \<noteq> option_value_key k"
  "''Variant Compare At Price'' \<noteq> option_name_key k"
  "''Variant Compare At Price'' \<noteq> option_value_key k"
  "''Variant Image'' \<noteq> option_name_key k" "''Variant Image'' \<noteq> option_value_key k"
  by (simp_all add: option_name_key_def option_value_key_def)

lemma first_row_image:
  assumes "make_first_row base ch (img # rest) av prev = Inr (first, prev')"
  shows "map_of first ''Image Src'' = Some (Cell (Str (url img)))"
    and "map_of first ''Image Position'' = Some (Cell (Num 1))"
  using assms
  by (auto simp: make_first_row_def Let_def and_then_Inr_iff map_of_update
        map_of_first_row_options map_of_with_first_image split: list.splits if_splits)

lemma metafield_key_neq:
  assumes "last k \<noteq> CHR '')''"
  shows "k \<notin> field_name ` set (get_metafield_attributes df)"
  using assms field_name_last' by fastforce

text \<open>The rows of a product are the first row, the image rows and the variant rows.\<close>

lemma rows_layout:
  assumes "create_variant_rows p ch va ma = Inr rows"
      and "parse_images (images p) = Inr imgs"
  obtains info tags first prev imgrows vrows where
    "make_first_row (make_base_row p ch ma info tags) ch imgs
       (attribute_values_of ch va) (initial_previous p) = Inr (first, prev)"
    "image_rows p (make_base_row p ch ma info tags) ma info 2 (tl imgs) = Inr imgrows"
    "(if attribute_values_of ch va \<noteq> [] \<and> ch \<noteq> []
      then variant_rows_loop (make_base_row p ch ma info tags) ch imgs
             (map fst (attribute_values_of ch va))
             (map (\<lambda>v. hd v) (map snd (attribute_values_of ch va))) prev
             (product_lists (map snd (attribute_values_of ch va)))
      else Inr []) = Inr vrows"
    "rows = first # imgrows @ vrows"
    "length imgrows = length imgs - 1"
    "Suc (length imgrows) = max 1 (length imgs)"
proof -
  from assms(1) obtain info tags imgs' first prev imgrows vrows where
    a: "parse_images (images p) = Inr imgs'"
    "make_first_row (make_base_row p ch ma info tags) ch imgs'
       (attribute_values_of ch va) (initial_previous p) = Inr (first, prev)"
    "image_rows p (make_base_row p ch ma info tags) ma info 2 (tl imgs') = Inr imgrows"
    "(if attribute_values_of ch va \<noteq> [] \<and> ch \<noteq> []
      then variant_rows_loop (make_base_row p ch ma info tags) ch imgs'
             (map fst (attribute_values_of ch va))
             (map (\<lambda>v. hd v) (map snd (attribute_values_of ch va))) prev
             (product_lists (map snd (attribute_values_of ch va)))
      else Inr []) = Inr vrows"
    "rows = first # imgrows @ vrows"
    by (rule create_variant_rows_InrD)
  from a(1) assms(2) have e: "imgs' = imgs" by simp
  have l: "length imgrows = length imgs - 1"
    using image_rows_length [OF a(3)] e by simp
  then have "Suc (length imgrows) = max 1 (length imgs)" by auto
  with a l show ?thesis using that unfolding e by blast
qed

lemma image_row_at:
  assumes "create_variant_rows p ch va ma = Inr rows"
      and "parse_images (images p) = Inr imgs"
      and "1 \<le> i" and "i < length imgs"
  obtains info tags where
    "make_image_row p (make_base_row p ch ma info tags) ma info (Suc i) (imgs ! i) = Inr (rows ! i)"
proof -
  from assms(1,2) obtain info tags first prev imgrows vrows where
    ir: "image_rows p (make_base_row p ch ma info tags) ma info 2 (tl imgs) = Inr imgrows"
    and rows: "rows = first # imgrows @ vrows"
    and len: "length imgrows = length imgs - 1"
    by (rule rows_layout)
  from assms(3,4) obtain j where j: "i = Suc j" "j < length (tl imgs)"
    by (cases i) auto
  from image_rows_nth [OF ir j(2)]
  have "make_image_row p (make_base_row p ch ma info tags) ma info (2 + j) (tl imgs ! j)
          = Inr (imgrows ! j)" .
  moreover have "tl imgs ! j = imgs ! i" using j by (simp add: nth_tl)
  moreover have "rows ! i = imgrows ! j" using j len rows by (simp add: nth_append)
  ultimately show ?thesis using that j by simp
qed

lemma variant_row_at:
  assumes "create_variant_rows p ch va ma = Inr rows"
      and "parse_images (images p) = Inr imgs"
      and "max 1 (length imgs) \<le> i" and "i < length rows"
  obtains info tags prev vrows where
    "variant_rows_loop (make_base_row p ch ma info tags) ch imgs
             (map fst (attribute_values_of ch va))
             (map (\<lambda>v. hd v) (map snd (attribute_values_of ch va))) prev
             (product_lists (map snd (attribute_values_of ch va))) = Inr vrows"
    "i - max 1 (length imgs) < length vrows"
    "rows ! i = vrows ! (i - max 1 (length imgs))"
proof -
  from assms(1,2) obtain info tags first prev imgrows vrows where
    vr: "(if attribute_values_of ch va \<noteq> [] \<and> ch \<noteq> []
      then variant_rows_loop (make_base_row p ch ma info tags) ch imgs
             (map fst (attribute_values_of ch va))
             (map (\<lambda>v. hd v) (map snd (attribute_values_of ch va))) prev
             (product_lists (map snd (attribute_values_of ch va)))
      else Inr []) = Inr vrows"
    and rows: "rows = first # imgrows @ vrows"
    and len: "Suc (length imgrows) = max 1 (length imgs)"
    by (rule rows_layout)
  from assms(3,4) rows len have lt: "i - max 1 (length imgs) < length vrows" by auto
  then have ne: "vrows \<noteq> []" by auto
  with vr have c: "attribute_values_of ch va \<noteq> [] \<and> ch \<noteq> []"
    by (auto split: if_splits)
  from assms(3) len obtain j where j: "i = Suc (length imgrows) + j"
    by (metis le_Suc_ex)
  have "rows ! i = (imgrows @ vrows) ! (length imgrows + j)"
    using rows j by simp
  also have "\<dots> = vrows ! j"
    by (rule nth_append_length_plus)
  finally have "rows ! i = vrows ! (i - max 1 (length imgs))"
    using len j by simp
  with vr c lt show ?thesis using that by auto
qed

lemma shirt_images:
  "parse_images (images shirt) =
     Inr [\<lparr>url = ''http://a.jpg'', alt = ''Red''\<rparr>, \<lparr>url = ''http://b.jpg'', alt = []\<rparr>]"
  by code_simp

lemma shirt_rows:
  obtains rows where
    "create_variant_rows shirt [shirt_blue_m, shirt_red_s] [''color'', ''size'']
       (get_metafield_attributes shop) = Inr rows"
    "length rows = 5"
proof -
  have "case create_variant_rows shirt [shirt_blue_m, shirt_red_s] [''color'', ''size'']
               (get_metafield_attributes shop) of
          Inl e \<Rightarrow> False | Inr rows \<Rightarrow> length rows = 5"
    by code_simp
  then show ?thesis using that by (auto split: sum.splits)
qed

section \<open>Parsing the image string\<close>

lemma strip_rest: "t = rev (dropWhile P (rev t)) @ rev (takeWhile P (rev t))"
proof -
  have "rev (takeWhile P (rev t) @ dropWhile P (rev t)) = rev (rev t)"
    by (simp only: takeWhile_dropWhile_id)
  then show ?thesis
    by (simp only: rev_append rev_rev_ident)
qed

lemma strip_decomposition:
  "\<exists>a b. s = a @ strip s @ b \<and> list_all is_space a \<and> list_all is_space b"
proof -
  define t where "t = dropWhile is_space s"
  have s: "s = takeWhile is_space s @ t"
    by (simp add: t_def)
  have t: "t = strip s @ rev (takeWhile is_space (rev t))"
    unfolding strip_def t_def by (rule strip_rest)
  have a: "list_all is_space (takeWhile is_space s)"
    by (auto simp: list_all_iff dest: set_takeWhileD)
  have b: "list_all is_space (rev (takeWhile is_space (rev t)))"
    by (auto simp: list_all_iff dest: set_takeWhileD)
  from s t have "s = takeWhile is_space s @ strip s @ rev (takeWhile is_space (rev t))"
    by simp
  with a b show ?thesis by blast
qed

lemma strip_ends:
  assumes "strip s \<noteq> []"
  shows "\<not> is_space (hd (strip s))" and "\<not> is_space (last (strip s))"
proof -
  define t where "t = dropWhile is_space s"
  have st: "strip s = rev (dropWhile is_space (rev t))"
    by (simp add: strip_def t_def)
  from assms st have d: "dropWhile is_space (rev t) \<noteq> []" by simp
  then have "\<not> is_space (hd (dropWhile is_space (rev t)))"
    by (rule hd_dropWhile)
  with d show "\<not> is_space (last (strip s))"
    by (simp add: st last_rev)
  have t: "t = strip s @ rev (takeWhile is_space (rev t))"
    unfolding st by (rule strip_rest)
  with assms have h: "hd t = hd (strip s)"
    by (metis hd_append2)
  from t assms have "t \<noteq> []" by auto
  then have "\<not> is_space (hd t)"
    unfolding t_def by (rule hd_dropWhile)
  with h show "\<not> is_space (hd (strip s))" by simp
qed

lemma join_Cons: "ys \<noteq> [] \<Longrightarrow> join sep (x # ys) = x @ sep @ join sep ys"
  by (cases ys) simp_all

lemma split_from_nonempty: "split_from c cur s \<noteq> []"
  by (induction s arbitrary: cur) simp_all

lemma join_split_from: "join [c] (split_from c cur s) = rev cur @ s"
  by (induction s arbitrary: cur) (simp_all add: join_Cons split_from_nonempty)

lemma split_from_pieces:
  "c \<notin> set cur \<Longrightarrow> \<forall>p \<in> set (split_from c cur s). c \<notin> set p"
proof (induction s arbitrary: cur)
  case Nil
  then show ?case by simp
next
  case (Cons x xs)
  have a: "\<forall>p \<in> set (split_from c [] xs). c \<notin> set p"
    by (rule Cons.IH) simp
  show ?case
  proof (cases "x = c")
    case True
    with a Cons.prems show ?thesis by simp
  next
    case False
    with Cons.prems have "c \<notin> set (x # cur)" by simp
    then have "\<forall>p \<in> set (split_from c (x # cur) xs). c \<notin> set p"
      by (rule Cons.IH)
    with False show ?thesis by simp
  qed
qed

lemma startswith_iff: "startswith t p \<longleftrightarrow> (\<exists>r. t = p @ r)"
proof
  assume "startswith t p"
  then have "t = p @ drop (length p) t"
    unfolding startswith_def by (metis append_take_drop_id)
  then show "\<exists>r. t = p @ r" ..
next
  assume "\<exists>r. t = p @ r"
  then show "startswith t p"
    by (auto simp: startswith_def)
qed

lemma vase_images:
  "parse_images (images vase) =
     Inr [\<lparr>url = ''http://a.jpg'', alt = ''Red''\<rparr>, \<lparr>url = ''http://b.jpg'', alt = []\<rparr>]"
  by code_simp

lemma vase_rows:
  obtains rows where
    "create_variant_rows vase [] [] (get_metafield_attributes vase_shop) = Inr rows"
    "length rows = 2"
proof -
  have "case create_variant_rows vase [] [] (get_metafield_attributes vase_shop) of
          Inl e \<Rightarrow> False | Inr rows \<Rightarrow> length rows = 2"
    by code_simp
  then show ?thesis using that by (auto split: sum.splits)
qed

text \<open>
  Claim C7.  \<^verbatim>\<open>parse_images("http://a.jpg!alt :Red|http://b.jpg")\<close> is the list of the two
  entries \<^verbatim>\<open>http://a.jpg\<close> with alt text \<^verbatim>\<open>Red\<close> and \<^verbatim>\<open>http://b.jpg\<close> with an empty alt
  text, in this order.  A text with blanks, a tab and a no-break space around the pieces,
  with a blank segment and empty segments, and with two markers in one piece and a second
  marker piece, gives the entries of the segments that are left, trimmed, the alt text
  being the first marker piece with every marker deleted.  For every text the result is
  obtained by splitting on the bar, trimming the segments, dropping the empty ones, and
  taking of each segment that is left the trimmed first piece before an exclamation mark as
  the URL and, as the alt text, the first later piece that starts with the marker \<^verbatim>\<open>alt :\<close>
  once trimmed, with the marker deleted and the rest trimmed (the empty text when there is
  no such piece); a missing cell gives no image.  Trimming is what \<^verbatim>\<open>str.strip\<close> does: a
  text is a run of white space, its trimmed form, and a run of white space, and the trimmed
  form is empty or has no white space at either end; the white space is the twelve
  characters 9 to 13, 28 to 32, 133 and 160.  Splitting is what \<^verbatim>\<open>str.split\<close> does: the
  pieces do not contain the separator, and joined with it they are the text.  A text starts
  with a marker when it is the marker followed by a rest.  The entries carry no position:
  the row assembler gives the image at index \<open>i\<close> of the list the position \<open>i + 1\<close>, on the
  first row and on the image rows.
\<close>

theorem parse_images_entries:
  "parse_images (Str ''http://a.jpg!alt :Red|http://b.jpg'') =
     Inr [\<lparr>url = ''http://a.jpg'', alt = ''Red''\<rparr>, \<lparr>url = ''http://b.jpg'', alt = []\<rparr>]
   \<and> parse_images
       (Str ('' http://a.jpg ! alt :Red | |http://b.jpg'' @ [char_of (9 :: nat)] @ ''||''
             @ [char_of (160 :: nat)] @ ''|u!x! alt :One alt :Two !alt :Three'')) =
       Inr [\<lparr>url = ''http://a.jpg'', alt = ''Red''\<rparr>, \<lparr>url = ''http://b.jpg'', alt = []\<rparr>,
            \<lparr>url = ''u'', alt = ''One Two''\<rparr>]
   \<and> parse_images NaN = Inr []
   \<and> parse_images (Str s) =
       Inr (map (\<lambda>seg. \<lparr>url = strip (hd (split_on CHR ''!'' seg)),
                         alt = (case find (\<lambda>part. startswith (strip part) ''alt :'')
                                       (tl (split_on CHR ''!'' seg)) of
                                  None \<Rightarrow> []
                                | Some part \<Rightarrow> strip (replace ''alt :'' [] part))\<rparr>)
              (filter (\<lambda>seg. seg \<noteq> []) (map strip (split_on CHR ''|'' s))))
   \<and> (\<exists>a b. t = a @ strip t @ b \<and> list_all is_space a \<and> list_all is_space b)
   \<and> (strip t = [] \<or> (\<not> is_space (hd (strip t)) \<and> \<not> is_space (last (strip t))))
   \<and> filter is_space (map char_of [0 ..< (256 :: nat)]) =
       map char_of [9, 10, 11, 12, 13, 28, 29, 30, 31, 32, 133, 160 :: nat]
   \<and> join [c] (split_on c t) = t
   \<and> list_all (\<lambda>piece. c \<notin> set piece) (split_on c t)
   \<and> (startswith t p \<longleftrightarrow> (\<exists>r. t = p @ r))
   \<and> (create_variant_rows parent_row children_df variant_attrs (get_metafield_attributes df)
          = Inr rows
        \<and> parse_images (images parent_row) = Inr parent_images \<and> i < length parent_images
        \<longrightarrow> map_of (rows ! i) ''Image Src'' = Some (Cell (Str (url (parent_images ! i))))
            \<and> map_of (rows ! i) ''Image Position'' = Some (Cell (Num (int i + 1))))"
proof -
  have ex: "parse_images (Str ''http://a.jpg!alt :Red|http://b.jpg'') =
     Inr [\<lparr>url = ''http://a.jpg'', alt = ''Red''\<rparr>, \<lparr>url = ''http://b.jpg'', alt = []\<rparr>]"
    by code_simp
  have blanks: "parse_images
       (Str ('' http://a.jpg ! alt :Red | |http://b.jpg'' @ [char_of (9 :: nat)] @ ''||''
             @ [char_of (160 :: nat)] @ ''|u!x! alt :One alt :Two !alt :Three'')) =
       Inr [\<lparr>url = ''http://a.jpg'', alt = ''Red''\<rparr>, \<lparr>url = ''http://b.jpg'', alt = []\<rparr>,
            \<lparr>url = ''u'', alt = ''One Two''\<rparr>]"
    by code_simp
  have na: "parse_images NaN = Inr []"
    by (simp add: parse_images_def)
  have gen: "parse_images (Str s) =
       Inr (map (\<lambda>seg. \<lparr>url = strip (hd (split_on CHR ''!'' seg)),
                         alt = (case find (\<lambda>part. startswith (strip part) ''alt :'')
                                       (tl (split_on CHR ''!'' seg)) of
                                  None \<Rightarrow> []
                                | Some part \<Rightarrow> strip (replace ''alt :'' [] part))\<rparr>)
              (filter (\<lambda>seg. seg \<noteq> []) (map strip (split_on CHR ''|'' s))))"
    by (simp add: parse_images_def parse_segments_map find_alt_find)
  have dec: "\<exists>a b. t = a @ strip t @ b \<and> list_all is_space a \<and> list_all is_space b"
    by (rule strip_decomposition)
  have ends: "strip t = [] \<or> (\<not> is_space (hd (strip t)) \<and> \<not> is_space (last (strip t)))"
    using strip_ends [of t] by blast
  have tab: "filter is_space (map char_of [0 ..< (256 :: nat)]) =
       map char_of [9, 10, 11, 12, 13, 28, 29, 30, 31, 32, 133, 160 :: nat]"
    by code_simp
  have jn: "join [c] (split_on c t) = t"
    by (simp add: split_on_def join_split_from)
  have pcs: "list_all (\<lambda>piece. c \<notin> set piece) (split_on c t)"
    using split_from_pieces [of c "[]" t] by (simp add: split_on_def list_all_iff)
  have sw: "startswith t p \<longleftrightarrow> (\<exists>r. t = p @ r)"
    by (rule startswith_iff)
  have pos: "map_of (rows ! i) ''Image Src'' = Some (Cell (Str (url (parent_images ! i))))
            \<and> map_of (rows ! i) ''Image Position'' = Some (Cell (Num (int i + 1)))"
    if r: "create_variant_rows parent_row children_df variant_attrs (get_metafield_attributes df)
          = Inr rows"
      and p: "parse_images (images parent_row) = Inr parent_images"
      and i: "i < length parent_images"
  proof (cases i)
    case 0
    from r p obtain info tags first prev imgrows vrows where
      f: "make_first_row
            (make_base_row parent_row children_df (get_metafield_attributes df) info tags)
            children_df parent_images (attribute_values_of children_df variant_attrs)
            (initial_previous parent_row) = Inr (first, prev)"
      and rows: "rows = first # imgrows @ vrows"
      by (rule rows_layout)
    from i 0 obtain img rest where "parent_images = img # rest"
      by (cases parent_images) auto
    with f first_row_image show ?thesis
      using 0 rows by fastforce
  next
    case (Suc j)
    with i have "1 \<le> i" by simp
    from image_row_at [OF r p this i] obtain info tags where
      m: "make_image_row parent_row
            (make_base_row parent_row children_df (get_metafield_attributes df) info tags)
            (get_metafield_attributes df) info (Suc i) (parent_images ! i) = Inr (rows ! i)" .
    have "''Image Src'' \<notin> field_name ` set (get_metafield_attributes df)"
      "''Image Position'' \<notin> field_name ` set (get_metafield_attributes df)"
      by (rule metafield_key_neq, simp)+
    with map_of_make_image_row [OF m] show ?thesis
      by (simp add: add.commute)
  qed
  from ex blanks na gen dec ends tab jn pcs sw pos show ?thesis by blast
qed

theorem parse_images_entries_witness:
  "\<exists>rows. create_variant_rows vase [] [] (get_metafield_attributes vase_shop) = Inr rows
     \<and> parse_images (images vase) =
          Inr [\<lparr>url = ''http://a.jpg'', alt = ''Red''\<rparr>, \<lparr>url = ''http://b.jpg'', alt = []\<rparr>]
     \<and> map_of (rows ! 0) ''Image Src'' = Some (Cell (Str ''http://a.jpg''))
     \<and> map_of (rows ! 0) ''Image Position'' = Some (Cell (Num 1))
     \<and> map_of (rows ! 1) ''Image Src'' = Some (Cell (Str ''http://b.jpg''))
     \<and> map_of (rows ! 1) ''Image Position'' = Some (Cell (Num 2))
     \<and> strip ('' alt :Red '' @ [char_of (160 :: nat)]) = ''alt :Red''
     \<and> \<not> is_space (hd (strip ('' alt :Red '' @ [char_of (160 :: nat)])))
     \<and> \<not> is_space (last (strip ('' alt :Red '' @ [char_of (160 :: nat)])))"
proof -
  obtain rows where
    r: "create_variant_rows vase [] [] (get_metafield_attributes vase_shop) = Inr rows"
    by (rule vase_rows)
  have l: "(0 :: nat) < length [\<lparr>url = ''http://a.jpg'', alt = ''Red''\<rparr>,
                                 \<lparr>url = ''http://b.jpg'', alt = []\<rparr>]"
     "(1 :: nat) < length [\<lparr>url = ''http://a.jpg'', alt = ''Red''\<rparr>,
                            \<lparr>url = ''http://b.jpg'', alt = []\<rparr>]"
    by simp_all
  have st: "strip ('' alt :Red '' @ [char_of (160 :: nat)]) = ''alt :Red''"
    by code_simp
  then have ne: "strip ('' alt :Red '' @ [char_of (160 :: nat)]) \<noteq> []"
    by simp
  from parse_images_entries [where parent_row = vase and children_df = "[]" and variant_attrs = "[]"
      and df = vase_shop and rows = rows and i = 0
      and parent_images = "[\<lparr>url = ''http://a.jpg'', alt = ''Red''\<rparr>,
                            \<lparr>url = ''http://b.jpg'', alt = []\<rparr>]"
      and t = "'' alt :Red '' @ [char_of (160 :: nat)]"]
    r vase_images l(1) ne
  have a: "map_of (rows ! 0) ''Image Src'' = Some (Cell (Str ''http://a.jpg''))"
    "map_of (rows ! 0) ''Image Position'' = Some (Cell (Num 1))"
    "\<not> is_space (hd (strip ('' alt :Red '' @ [char_of (160 :: nat)])))"
    "\<not> is_space (last (strip ('' alt :Red '' @ [char_of (160 :: nat)])))"
    by simp_all
  from parse_images_entries [where parent_row = vase and children_df = "[]" and variant_attrs = "[]"
      and df = vase_shop and rows = rows and i = 1
      and parent_images = "[\<lparr>url = ''http://a.jpg'', alt = ''Red''\<rparr>,
                            \<lparr>url = ''http://b.jpg'', alt = []\<rparr>]"]
    r vase_images l(2)
  have b: "map_of (rows ! 1) ''Image Src'' = Some (Cell (Str ''http://b.jpg''))"
    "map_of (rows ! 1) ''Image Position'' = Some (Cell (Num 2))"
    by simp_all
  from r vase_images a b st show ?thesis by blast
qed

section \<open>The columns of image rows and variant rows\<close>

text \<open>
  Claim C8.  In the rows of a product, assembled with the metafield columns of the data
  frame, the rows at the indices \<open>1, ..., k - 1\<close> are the rows of the secondary images
  (they carry the image positions \<open>2, ..., k\<close>) and have no \<^verbatim>\<open>Variant Price\<close>, no
  \<^verbatim>\<open>Variant Compare At Price\<close> and no \<^verbatim>\<open>OptionK Name\<close> or \<^verbatim>\<open>OptionK Value\<close> column for any
  \<open>K\<close>; the rows from the index \<open>max 1 k\<close> on are the variant rows and have no
  \<^verbatim>\<open>Image Position\<close> column.
\<close>

theorem image_and_variant_row_fields:
  assumes "create_variant_rows parent_row children_df variant_attrs (get_metafield_attributes df)
             = Inr rows"
      and "parse_images (images parent_row) = Inr parent_images"
  shows "(\<forall>i. 1 \<le> i \<and> i < length parent_images \<longrightarrow>
            map_of (rows ! i) ''Image Position'' = Some (Cell (Num (int i + 1)))
            \<and> \<not> has_key (rows ! i) ''Variant Price''
            \<and> \<not> has_key (rows ! i) ''Variant Compare At Price''
            \<and> (\<forall>k. \<not> has_key (rows ! i) (option_name_key k)
                   \<and> \<not> has_key (rows ! i) (option_value_key k)))
       \<and> (\<forall>i. max 1 (length parent_images) \<le> i \<and> i < length rows \<longrightarrow>
            \<not> has_key (rows ! i) ''Image Position'')"
proof (intro conjI allI impI)
  fix i
  assume "1 \<le> i \<and> i < length parent_images"
  then have i: "1 \<le> i" "i < length parent_images" by auto
  from image_row_at [OF assms i] obtain info tags where
    m: "make_image_row parent_row
          (make_base_row parent_row children_df (get_metafield_attributes df) info tags)
          (get_metafield_attributes df) info (Suc i) (parent_images ! i) = Inr (rows ! i)" .
  have "''Image Position'' \<notin> field_name ` set (get_metafield_attributes df)"
    by (rule metafield_key_neq) simp
  with map_of_make_image_row [OF m]
  show "map_of (rows ! i) ''Image Position'' = Some (Cell (Num (int i + 1)))"
    by (simp add: add.commute)
  have "''Variant Price'' \<notin> field_name ` set (get_metafield_attributes df)"
    by (rule metafield_key_neq) simp
  then show "\<not> has_key (rows ! i) ''Variant Price''"
    unfolding has_key_make_image_row [OF m]
    by (simp add: category_key_def sub_category_key_def)
  have "''Variant Compare At Price'' \<notin> field_name ` set (get_metafield_attributes df)"
    by (rule metafield_key_neq) simp
  then show "\<not> has_key (rows ! i) ''Variant Compare At Price''"
    unfolding has_key_make_image_row [OF m]
    by (simp add: category_key_def sub_category_key_def)
  fix k
  have "option_name_key k \<notin> field_name ` set (get_metafield_attributes df)"
    by (rule metafield_key_neq) (simp add: option_name_key_last)
  then show "\<not> has_key (rows ! i) (option_name_key k)"
    unfolding has_key_make_image_row [OF m]
    by (simp add: category_key_def sub_category_key_def option_name_key_def)
  have "option_value_key k \<notin> field_name ` set (get_metafield_attributes df)"
    by (rule metafield_key_neq) (simp add: option_value_key_last)
  then show "\<not> has_key (rows ! i) (option_value_key k)"
    unfolding has_key_make_image_row [OF m]
    by (simp add: category_key_def sub_category_key_def option_value_key_def)
next
  fix i
  assume "max 1 (length parent_images) \<le> i \<and> i < length rows"
  then have i: "max 1 (length parent_images) \<le> i" "i < length rows" by auto
  from variant_row_at [OF assms i] obtain info tags prev vrows where
    l: "variant_rows_loop
          (make_base_row parent_row children_df (get_metafield_attributes df) info tags)
          children_df parent_images
          (map fst (attribute_values_of children_df variant_attrs))
          (map (\<lambda>v. hd v) (map snd (attribute_values_of children_df variant_attrs))) prev
          (product_lists (map snd (attribute_values_of children_df variant_attrs))) = Inr vrows"
    and j: "i - max 1 (length parent_images) < length vrows"
    and e: "rows ! i = vrows ! (i - max 1 (length parent_images))" .
  from j e have mem: "rows ! i \<in> set vrows" by simp
  have nf: "''Image Position'' \<notin> field_name ` set (get_metafield_attributes df)"
    by (rule metafield_key_neq) simp
  show "\<not> has_key (rows ! i) ''Image Position''"
  proof
    assume "has_key (rows ! i) ''Image Position''"
    from has_key_variant_rows_loop [OF l mem this]
    show False using nf
      by (simp add: has_key_make_base_row category_key_def sub_category_key_def)
  qed
qed

theorem image_and_variant_row_fields_witness:
  "\<exists>rows. create_variant_rows shirt [shirt_blue_m, shirt_red_s] [''color'', ''size'']
             (get_metafield_attributes shop) = Inr rows
     \<and> length rows = 5
     \<and> map_of (rows ! 1) ''Image Position'' = Some (Cell (Num 2))
     \<and> \<not> has_key (rows ! 1) ''Variant Price''
     \<and> \<not> has_key (rows ! 1) (option_name_key 1)
     \<and> \<not> has_key (rows ! 2) ''Image Position''
     \<and> \<not> has_key (rows ! 4) ''Image Position''"
proof -
  obtain rows where
    r: "create_variant_rows shirt [shirt_blue_m, shirt_red_s] [''color'', ''size'']
          (get_metafield_attributes shop) = Inr rows"
    and n: "length rows = 5"
    by (rule shirt_rows)
  from image_and_variant_row_fields [OF r shirt_images] n r
  show ?thesis by auto
qed

section \<open>The alt text of the first row\<close>

lemma lower_Size: "lower ''Size'' \<noteq> ''color''"
  by code_simp

lemma renamed_is_color:
  "lower (if lower a = ''sizes'' then ''Size'' else a) = ''color'' \<longleftrightarrow> lower a = ''color''"
  using lower_Size by auto

lemma first_row_options_keeps_alt:
  "filter (\<lambda>(a, vs). lower a = ''color'') av = [] \<Longrightarrow>
   map_of (first_row_options idx av r) ''Image Alt Text'' = map_of r ''Image Alt Text''"
proof (induction av arbitrary: idx r)
  case Nil
  then show ?case by simp
next
  case (Cons e av)
  obtain b ws where e: "e = (b, ws)" by (cases e)
  from Cons.prems e have nc: "lower b \<noteq> ''color''"
    and rest: "filter (\<lambda>(a, vs). lower a = ''color'') av = []"
    by (auto split: if_splits)
  show ?case
    unfolding e first_row_options.simps Let_def Cons.IH [OF rest]
    using nc by (simp add: renamed_is_color map_of_update)
qed

lemma first_row_options_alt:
  "filter (\<lambda>(a, vs). lower a = ''color'') av \<noteq> [] \<Longrightarrow>
   last (filter (\<lambda>(a, vs). lower a = ''color'') av) = (a, vs) \<Longrightarrow>
   map_of (first_row_options idx av r) ''Image Alt Text'' = Some (Cell (Str (hd vs)))"
proof (induction av arbitrary: idx r)
  case Nil
  then show ?case by simp
next
  case (Cons e av)
  obtain b ws where e: "e = (b, ws)" by (cases e)
  show ?case
  proof (cases "filter (\<lambda>(a, vs). lower a = ''color'') av = []")
    case True
    with Cons.prems e have c: "lower b = ''color''" and l: "(b, ws) = (a, vs)"
      by (auto split: if_splits)
    show ?thesis
      unfolding e first_row_options.simps Let_def first_row_options_keeps_alt [OF True]
      using c l by (simp add: renamed_is_color map_of_update)
  next
    case False
    with Cons.prems e have "last (filter (\<lambda>(a, vs). lower a = ''color'') av) = (a, vs)"
      by (auto split: if_splits)
    from Cons.IH [OF False this] show ?thesis
      unfolding e first_row_options.simps Let_def .
  qed
qed

lemma sorted_hd_least: "sorted xs \<Longrightarrow> x \<in> set xs \<Longrightarrow> hd xs \<le> x"
  by (cases xs) auto

lemma collect_attribute_values_keys:
  "fst ` set (collect_attribute_values ch va acc) =
     fst ` set acc \<union> {a \<in> set va. get_option_values ch a \<noteq> []}"
  by (induction va arbitrary: acc) (auto simp: Let_def dom_update)

lemma color_attribute_iff:
  "filter (\<lambda>(a, vs). lower a = ''color'') (attribute_values_of ch va) \<noteq> []
     \<longleftrightarrow> (\<exists>a \<in> set va. lower a = ''color'' \<and> get_option_values ch a \<noteq> [])"
proof -
  have "filter (\<lambda>(a, vs). lower a = ''color'') (attribute_values_of ch va) \<noteq> []
     \<longleftrightarrow> (\<exists>a \<in> fst ` set (attribute_values_of ch va). lower a = ''color'')"
    by (force simp: filter_empty_conv)
  also have "fst ` set (attribute_values_of ch va) = {a \<in> set va. get_option_values ch a \<noteq> []}"
    by (simp add: attribute_values_of_def collect_attribute_values_keys)
  finally show ?thesis by auto
qed

lemma bowl_images:
  "parse_images (images bowl) =
     Inr [\<lparr>url = ''http://front.jpg'', alt = ''Front''\<rparr>,
          \<lparr>url = ''http://back.jpg'', alt = ''Back''\<rparr>]"
  by code_simp

lemma bowl_frame:
  "children_of bowl_shop bowl = [bowl_green, bowl_amber]
   \<and> get_variant_attributes bowl_shop = [''Color'']"
  by code_simp

lemma bowl_rows:
  obtains rows where
    "create_variant_rows bowl [bowl_green, bowl_amber] [''Color'']
       (get_metafield_attributes bowl_shop) = Inr rows"
    "length rows = 3"
proof -
  have "case create_variant_rows bowl [bowl_green, bowl_amber] [''Color'']
               (get_metafield_attributes bowl_shop) of
          Inl e \<Rightarrow> False | Inr rows \<Rightarrow> length rows = 3"
    by code_simp
  then show ?thesis using that by (auto split: sum.splits)
qed

text \<open>
  Claim C9, as the code has it.  Take a product with at least one child and a variant
  attribute whose name is \<^verbatim>\<open>color\<close> up to case and which has values among the children.  The
  \<^verbatim>\<open>Image Alt Text\<close> of the first row is the first value, which is the least of the sorted
  values, of the last such attribute in the order of \<^verbatim>\<open>attribute_values\<close>: the loop over the
  attributes writes the alt text anew for each of them.  That attribute is one of the variant
  attributes and is named \<^verbatim>\<open>color\<close> up to case, so with one such attribute the alt text is
  the first colour value.  With the two attributes \<^verbatim>\<open>Color\<close> and \<^verbatim>\<open>color\<close> of the kite it is
  the value \<^verbatim>\<open>Yak\<close> of the second, not the first value \<^verbatim>\<open>Aqua\<close> of the attribute \<^verbatim>\<open>Color\<close>,
  which is the least colour value of the product.  The rows of the secondary images keep
  the alt text that \<^verbatim>\<open>parse_images\<close> read.
\<close>

theorem primary_alt_text:
  assumes "create_variant_rows parent_row children_df variant_attrs (get_metafield_attributes df)
             = Inr rows"
      and "parse_images (images parent_row) = Inr parent_images"
      and "children_df \<noteq> []"
      and "\<exists>a \<in> set variant_attrs. lower a = ''color'' \<and> get_option_values children_df a \<noteq> []"
      and "last (filter (\<lambda>(a, vs). lower a = ''color'')
                  (attribute_values_of children_df variant_attrs)) = (color, vals)"
  shows "map_of (rows ! 0) ''Image Alt Text'' = Some (Cell (Str (hd vals)))
       \<and> color \<in> set variant_attrs \<and> lower color = ''color''
       \<and> vals = get_option_values children_df color \<and> vals \<noteq> []
       \<and> (\<forall>v \<in> set vals. hd vals \<le> v)
       \<and> (\<forall>i. 1 \<le> i \<and> i < length parent_images \<longrightarrow>
             map_of (rows ! i) ''Image Alt Text''
               = Some (Cell (Str (alt (parent_images ! i)))))"
proof -
  let ?av = "attribute_values_of children_df variant_attrs"
  let ?ma = "get_metafield_attributes df"
  from assms(4) have ne: "filter (\<lambda>(a, vs). lower a = ''color'') ?av \<noteq> []"
    by (simp only: color_attribute_iff)
  from assms(1,2) obtain info tags first prev imgrows vrows where
    f: "make_first_row (make_base_row parent_row children_df ?ma info tags)
          children_df parent_images ?av (initial_previous parent_row) = Inr (first, prev)"
    and rows: "rows = first # imgrows @ vrows"
    by (rule rows_layout)
  from assms(3) obtain c cs where ch: "children_df = c # cs"
    by (cases children_df) auto
  from f ch obtain r where "first = first_row_options 1 ?av r"
    by (auto simp: make_first_row_def Let_def and_then_Inr_iff)
  with first_row_options_alt [OF ne assms(5)] rows
  have first: "map_of (rows ! 0) ''Image Alt Text'' = Some (Cell (Str (hd vals)))"
    by simp
  from ne assms(5) have "(color, vals) \<in> set (filter (\<lambda>(a, vs). lower a = ''color'') ?av)"
    using last_in_set by metis
  then have "(color, vals) \<in> set ?av" and name: "lower color = ''color''" by simp_all
  from attribute_values_entries [OF this(1)]
  have v: "vals = get_option_values children_df color" "vals \<noteq> []" "sorted vals"
    and attr: "color \<in> set variant_attrs"
    by auto
  from v(3) have least: "\<forall>v \<in> set vals. hd vals \<le> v"
    by (auto intro: sorted_hd_least)
  have img: "map_of (rows ! i) ''Image Alt Text'' = Some (Cell (Str (alt (parent_images ! i))))"
    if "1 \<le> i \<and> i < length parent_images" for i
  proof -
    from that have i: "1 \<le> i" "i < length parent_images" by auto
    from image_row_at [OF assms(1,2) i] obtain info tags where
      m: "make_image_row parent_row (make_base_row parent_row children_df ?ma info tags)
            ?ma info (Suc i) (parent_images ! i) = Inr (rows ! i)" .
    have "''Image Alt Text'' \<notin> field_name ` set ?ma"
      by (rule metafield_key_neq) simp
    with map_of_make_image_row [OF m] show ?thesis by simp
  qed
  from first attr name v(1,2) least img show ?thesis by blast
qed

theorem primary_alt_text_witness:
  "\<exists>rows. product_rows bowl_shop bowl = Inr rows
     \<and> children_of bowl_shop bowl = [bowl_green, bowl_amber]
     \<and> get_variant_attributes bowl_shop = [''Color'']
     \<and> filter (\<lambda>(a, vs). lower a = ''color'')
          (attribute_values_of [bowl_green, bowl_amber] [''Color''])
        = [(''Color'', [''Amber'', ''Green''])]
     \<and> parse_images (images bowl) =
          Inr [\<lparr>url = ''http://front.jpg'', alt = ''Front''\<rparr>,
               \<lparr>url = ''http://back.jpg'', alt = ''Back''\<rparr>]
     \<and> map_of (rows ! 0) ''Image Alt Text'' = Some (Cell (Str ''Amber''))
     \<and> map_of (rows ! 1) ''Image Alt Text'' = Some (Cell (Str ''Back''))"
proof -
  obtain rows where
    r: "create_variant_rows bowl [bowl_green, bowl_amber] [''Color'']
          (get_metafield_attributes bowl_shop) = Inr rows"
    by (rule bowl_rows)
  have fr: "children_of bowl_shop bowl = [bowl_green, bowl_amber]"
    "get_variant_attributes bowl_shop = [''Color'']"
    using bowl_frame by simp_all
  have pr: "product_rows bowl_shop bowl = Inr rows"
    unfolding product_rows_def fr by (rule r)
  have f: "filter (\<lambda>(a, vs). lower a = ''color'')
             (attribute_values_of [bowl_green, bowl_amber] [''Color''])
           = [(''Color'', [''Amber'', ''Green''])]"
    by code_simp
  have h3: "[bowl_green, bowl_amber] \<noteq> []" by simp
  have "lower ''Color'' = ''color''
        \<and> get_option_values [bowl_green, bowl_amber] ''Color'' = [''Amber'', ''Green'']"
    by code_simp
  then have h4: "\<exists>a \<in> set [''Color'']. lower a = ''color''
                   \<and> get_option_values [bowl_green, bowl_amber] a \<noteq> []"
    by simp
  have h5: "last (filter (\<lambda>(a, vs). lower a = ''color'')
             (attribute_values_of [bowl_green, bowl_amber] [''Color'']))
           = (''Color'', [''Amber'', ''Green''])"
    unfolding f by simp
  note t = primary_alt_text [OF r bowl_images h3 h4 h5]
  from t have "map_of (rows ! 0) ''Image Alt Text'' = Some (Cell (Str (hd [''Amber'', ''Green''])))"
    by (rule conjunct1)
  moreover from t have "\<forall>i. 1 \<le> i \<and> i < length [\<lparr>url = ''http://front.jpg'', alt = ''Front''\<rparr>,
                                         \<lparr>url = ''http://back.jpg'', alt = ''Back''\<rparr>] \<longrightarrow>
             map_of (rows ! i) ''Image Alt Text''
               = Some (Cell (Str (alt ([\<lparr>url = ''http://front.jpg'', alt = ''Front''\<rparr>,
                                        \<lparr>url = ''http://back.jpg'', alt = ''Back''\<rparr>] ! i))))"
    by blast
  from this [rule_format, of 1]
  have "map_of (rows ! 1) ''Image Alt Text'' = Some (Cell (Str ''Back''))"
    by simp
  ultimately have "map_of (rows ! 0) ''Image Alt Text'' = Some (Cell (Str ''Amber''))"
    "map_of (rows ! 1) ''Image Alt Text'' = Some (Cell (Str ''Back''))"
    by simp_all
  with pr fr f bowl_images show ?thesis by blast
qed

theorem primary_alt_text_counterexample:
  "children_of kite_shop kite = [kite_child]
   \<and> get_variant_attributes kite_shop = [''Color'', ''color'']
   \<and> lower ''Color'' = ''color''
   \<and> get_option_values (children_of kite_shop kite) ''Color'' = [''Aqua'']
   \<and> get_option_values (children_of kite_shop kite) ''color'' = [''Yak'']
   \<and> parse_images (images kite) = Inr [\<lparr>url = ''http://kite.jpg'', alt = ''Front''\<rparr>]
   \<and> (case product_rows kite_shop kite of
         Inl e \<Rightarrow> False
       | Inr rows \<Rightarrow>
           map_of (rows ! 0) ''Image Alt Text'' = Some (Cell (Str ''Yak''))
           \<and> map_of (rows ! 0) ''Image Alt Text''
               \<noteq> Some (Cell (Str (hd (get_option_values (children_of kite_shop kite) ''Color'')))))"
  by code_simp

section \<open>The loop over the combinations\<close>

lemma carried_from_variant_options:
  "carried_from (variant_options idx zs r) = carried_from r"
  by (simp add: carried_from_def dict_get_def map_of_variant_options)

lemma carried_from_first_row_options:
  "carried_from (first_row_options idx av r) = carried_from r"
  by (simp add: carried_from_def dict_get_def map_of_first_row_options)

lemma variant_rows_loop_nth:
  "variant_rows_loop base ch imgs names primary prev combos = Inr rs \<Longrightarrow> j < length rs \<Longrightarrow>
   \<exists>vrow. resolve_variant base ch imgs names
             (if j = 0 then prev else carried_from (rs ! (j - 1)))
             (filter (\<lambda>c. c \<noteq> primary) combos ! j) = Inr vrow
         \<and> rs ! j = variant_options 1 (zip names (filter (\<lambda>c. c \<noteq> primary) combos ! j)) vrow"
proof (induction combos arbitrary: prev rs j)
  case Nil
  then show ?case by simp
next
  case (Cons vv combos)
  show ?case
  proof (cases "vv = primary")
    case True
    with Cons show ?thesis by simp
  next
    case False
    with Cons.prems(1) obtain vrow0 rest where
      v: "resolve_variant base ch imgs names prev vv = Inr vrow0"
      and l: "variant_rows_loop base ch imgs names primary (carried_from vrow0) combos = Inr rest"
      and rs: "rs = variant_options 1 (zip names vv) vrow0 # rest"
      by (auto simp: and_then_Inr_iff)
    show ?thesis
    proof (cases j)
      case 0
      with v rs False show ?thesis by simp
    next
      case (Suc j')
      with Cons.prems(2) rs have "j' < length rest" by simp
      from Cons.IH [OF l this] obtain vrow where
        a: "resolve_variant base ch imgs names
             (if j' = 0 then carried_from vrow0 else carried_from (rest ! (j' - 1)))
             (filter (\<lambda>c. c \<noteq> primary) combos ! j') = Inr vrow"
        and b: "rest ! j' = variant_options 1 (zip names (filter (\<lambda>c. c \<noteq> primary) combos ! j')) vrow"
        by blast
      have "(if j' = 0 then carried_from vrow0 else carried_from (rest ! (j' - 1)))
            = carried_from (rs ! (j - 1))"
        using Suc rs by (cases j') (simp_all add: carried_from_variant_options)
      with a b show ?thesis using Suc rs False by simp
    qed
  qed
qed

lemma first_row_carried:
  assumes "make_first_row base ch imgs av prev = Inr (first, prev')" and "ch \<noteq> []"
  shows "prev' = carried_from first"
  using assms
  by (cases ch)
     (auto simp: make_first_row_def Let_def and_then_Inr_iff carried_from_first_row_options)

lemma first_row_has_price:
  assumes "make_first_row base ch imgs av prev = Inr (first, prev')"
  shows "has_key first ''Variant Price''"
  using assms
  by (cases ch)
     (auto simp: make_first_row_def Let_def and_then_Inr_iff has_key_def
        map_of_first_row_options map_of_update)

lemma resolve_variant_has_price:
  assumes "resolve_variant base ch imgs names prev vv = Inr r"
  shows "has_key r ''Variant Price''"
  using assms
  by (auto simp: resolve_variant_def Let_def and_then_Inr_iff has_key_def map_of_update
        split: option.splits)



text \<open>The variant row number \<open>j\<close> of a product, and the carried state it was resolved with.\<close>

lemma variant_row_resolved:
  assumes "create_variant_rows p ch va ma = Inr rows"
      and "parse_images (images p) = Inr imgs"
      and "j < length (variant_combinations ch va)"
  obtains info tags vrow where
    "resolve_variant (make_base_row p ch ma info tags) ch imgs
       (map fst (attribute_values_of ch va))
       (carried_from (rows ! previous_row_index (length imgs) j))
       (variant_combinations ch va ! j) = Inr vrow"
    "rows ! (max 1 (length imgs) + j) =
       variant_options 1 (zip (map fst (attribute_values_of ch va)) (variant_combinations ch va ! j))
         vrow"
    "max 1 (length imgs) + j < length rows"
    "has_key (rows ! previous_row_index (length imgs) j) ''Variant Price''"
proof -
  let ?av = "attribute_values_of ch va"
  from assms(3) have c: "?av \<noteq> [] \<and> ch \<noteq> []"
    by (auto simp: variant_combinations_def Let_def split: if_splits)
  then have vc: "variant_combinations ch va =
      filter (\<lambda>c. c \<noteq> map hd (map snd ?av)) (product_lists (map snd ?av))"
    by (simp add: variant_combinations_def non_primary_combinations_def Let_def)
  from assms(1,2) obtain info tags first prev imgrows vrows where
    f: "make_first_row (make_base_row p ch ma info tags) ch imgs ?av (initial_previous p)
          = Inr (first, prev)"
    and vr: "(if ?av \<noteq> [] \<and> ch \<noteq> []
      then variant_rows_loop (make_base_row p ch ma info tags) ch imgs (map fst ?av)
             (map (\<lambda>v. hd v) (map snd ?av)) prev (product_lists (map snd ?av))
      else Inr []) = Inr vrows"
    and rows: "rows = first # imgrows @ vrows"
    and len: "Suc (length imgrows) = max 1 (length imgs)"
    by (rule rows_layout)
  from vr c have l: "variant_rows_loop (make_base_row p ch ma info tags) ch imgs (map fst ?av)
             (map hd (map snd ?av)) prev (product_lists (map snd ?av)) = Inr vrows"
    by simp
  from variant_rows_loop_length [OF l] vc have n: "length vrows = length (variant_combinations ch va)"
    by simp
  with assms(3) have j: "j < length vrows" by simp
  have at: "rows ! (max 1 (length imgs) + k) = vrows ! k" for k
  proof -
    have "rows ! (max 1 (length imgs) + k) = (imgrows @ vrows) ! (length imgrows + k)"
      using rows len [symmetric] by simp
    then show ?thesis by (simp only: nth_append_length_plus)
  qed
  from first_row_carried [OF f] c have prev: "prev = carried_from first" by simp
  have carried: "(if j = 0 then prev else carried_from (vrows ! (j - 1)))
      = carried_from (rows ! previous_row_index (length imgs) j)"
  proof (cases j)
    case 0
    then show ?thesis using prev rows by (simp add: previous_row_index_def)
  next
    case (Suc j')
    have "rows ! (max 1 (length imgs) + j') = vrows ! j'" by (rule at)
    then show ?thesis using Suc by (simp add: previous_row_index_def)
  qed
  from variant_rows_loop_nth [OF l j] obtain vrow where
    a: "resolve_variant (make_base_row p ch ma info tags) ch imgs (map fst ?av)
         (if j = 0 then prev else carried_from (vrows ! (j - 1)))
         (filter (\<lambda>c. c \<noteq> map hd (map snd ?av)) (product_lists (map snd ?av)) ! j) = Inr vrow"
    and b: "vrows ! j = variant_options 1
         (zip (map fst ?av) (filter (\<lambda>c. c \<noteq> map hd (map snd ?av)) (product_lists (map snd ?av)) ! j))
         vrow"
    by blast
  have hp: "has_key (rows ! previous_row_index (length imgs) j) ''Variant Price''"
  proof (cases j)
    case 0
    then show ?thesis using first_row_has_price [OF f] rows by (simp add: previous_row_index_def)
  next
    case (Suc j')
    with j have j': "j' < length vrows" by simp
    from variant_rows_loop_nth [OF l j'] obtain w where
      "resolve_variant (make_base_row p ch ma info tags) ch imgs (map fst ?av)
         (if j' = 0 then prev else carried_from (vrows ! (j' - 1)))
         (filter (\<lambda>c. c \<noteq> map hd (map snd ?av)) (product_lists (map snd ?av)) ! j') = Inr w"
      and w: "vrows ! j' = variant_options 1
         (zip (map fst ?av) (filter (\<lambda>c. c \<noteq> map hd (map snd ?av)) (product_lists (map snd ?av)) ! j'))
         w"
      by blast
    from resolve_variant_has_price [OF this(1)] have "has_key (vrows ! j') ''Variant Price''"
      unfolding w by (simp add: has_key_def map_of_variant_options)
    moreover have "rows ! (max 1 (length imgs) + j') = vrows ! j'" by (rule at)
    ultimately show ?thesis using Suc by (simp add: previous_row_index_def)
  qed
  have lt: "max 1 (length imgs) + j < length rows"
    using rows len [symmetric] j by simp
  from a b show ?thesis
    using that [of info tags vrow] carried vc at [of j] lt hp by simp
qed

section \<open>Option columns\<close>

text \<open>The decimal form of a number determines the number, so the option columns of
  different indices are different columns.\<close>

lemma digit_char_inj:
  "a < 10 \<Longrightarrow> b < 10 \<Longrightarrow> char_of (48 + a :: nat) = char_of (48 + b) \<Longrightarrow> a = b"
proof -
  assume a: "a < 10" and b: "b < 10" and e: "char_of (48 + a :: nat) = char_of (48 + b)"
  from e have "(of_char (char_of (48 + a :: nat)) :: nat) = of_char (char_of (48 + b))"
    by simp
  then have "(48 + a) mod 256 = (48 + b) mod 256"
    by (simp only: of_char_of)
  with a b show "a = b" by simp
qed

lemma str_nat_small: "n < 10 \<Longrightarrow> str_nat n = [char_of (48 + n)]"
  by (subst str_nat.simps) simp

lemma str_nat_big: "\<not> n < 10 \<Longrightarrow> str_nat n = str_nat (n div 10) @ [char_of (48 + n mod 10)]"
  by (subst str_nat.simps) simp

lemma str_nat_length_small: "n < 10 \<Longrightarrow> length (str_nat n) = 1"
  by (simp add: str_nat_small)

lemma str_nat_length_big: "\<not> n < 10 \<Longrightarrow> 2 \<le> length (str_nat n)"
proof -
  assume n: "\<not> n < 10"
  have "str_nat (n div 10) \<noteq> []"
    by (rule str_nat_nonempty)
  then have "1 \<le> length (str_nat (n div 10))"
    by (cases "str_nat (n div 10)") simp_all
  then show ?thesis
    by (simp only: str_nat_big [OF n] length_append) simp
qed

lemma str_nat_inj: "str_nat n = str_nat m \<Longrightarrow> n = m"
proof (induction n arbitrary: m rule: str_nat.induct)
  case (1 n)
  show ?case
  proof (cases "n < 10")
    case True
    have m: "m < 10"
    proof (rule ccontr)
      assume "\<not> m < 10"
      from str_nat_length_big [OF this] have "2 \<le> length (str_nat n)"
        by (simp only: "1.prems")
      with str_nat_length_small [OF True] show False by simp
    qed
    with True "1.prems" show ?thesis
      by (auto simp: str_nat_small dest: digit_char_inj)
  next
    case False
    have m: "\<not> m < 10"
    proof
      assume "m < 10"
      from str_nat_length_small [OF this] have "length (str_nat n) = 1"
        by (simp only: "1.prems")
      with str_nat_length_big [OF False] show False by simp
    qed
    from "1.prems" have e: "str_nat (n div 10) = str_nat (m div 10)"
      and d: "char_of (48 + n mod 10) = char_of (48 + m mod 10)"
      by (simp_all add: str_nat_big [OF False] str_nat_big [OF m])
    from "1.IH" [OF False e] have "n div 10 = m div 10" .
    moreover from d have "n mod 10 = m mod 10"
      by (auto dest: digit_char_inj [rotated 2])
    ultimately show ?thesis
      by (metis div_mult_mod_eq)
  qed
qed

lemma option_value_key_inj [simp]: "option_value_key i = option_value_key j \<longleftrightarrow> i = j"
  by (auto simp: option_value_key_def dest: str_nat_inj)

lemma option_name_key_inj [simp]: "option_name_key i = option_name_key j \<longleftrightarrow> i = j"
  by (auto simp: option_name_key_def dest: str_nat_inj)

lemma option_name_value_neq [simp]:
  "option_name_key i \<noteq> option_value_key j" "option_value_key j \<noteq> option_name_key i"
proof -
  have "last (butlast (option_name_key i)) = CHR ''m''"
    by (simp add: option_name_key_def butlast_append)
  moreover have "last (butlast (option_value_key j)) = CHR ''u''"
    by (simp add: option_value_key_def butlast_append)
  ultimately show "option_name_key i \<noteq> option_value_key j" "option_value_key j \<noteq> option_name_key i"
    by auto
qed

lemma variant_options_other:
  "(\<forall>i \<ge> idx. k \<noteq> option_name_key i \<and> k \<noteq> option_value_key i) \<Longrightarrow>
   map_of (variant_options idx zs r) k = map_of r k"
  by (induction idx zs r rule: variant_options.induct)
     (auto simp: map_of_update Let_def)

lemma variant_options_value:
  "i < length zs \<Longrightarrow>
   map_of (variant_options idx zs r) (option_value_key (idx + i)) = Some (Cell (Str (snd (zs ! i))))"
proof (induction zs arbitrary: idx r i)
  case Nil
  then show ?case by simp
next
  case (Cons z zs)
  obtain name v where z: "z = (name, v)" by (cases z)
  show ?case
  proof (cases i)
    case 0
    then show ?thesis
      by (simp add: z Let_def variant_options_other map_of_update)
  next
    case (Suc i')
    with Cons.prems have "i' < length zs" by simp
    from Cons.IH [OF this, of "Suc idx"] show ?thesis
      by (simp add: z Let_def Suc)
  qed
qed

section \<open>The carried price\<close>


lemma shirt_combinations:
  "variant_combinations [shirt_blue_m, shirt_red_s] [''color'', ''size''] =
     [[''Blue'', ''S''], [''Red'', ''M''], [''Red'', ''S'']]"
  by code_simp





section \<open>The order of the variant rows\<close>

lemma first_row_options_other:
  "k \<noteq> ''Image Alt Text'' \<Longrightarrow>
   (\<forall>i \<ge> idx. k \<noteq> option_name_key i \<and> k \<noteq> option_value_key i) \<Longrightarrow>
   map_of (first_row_options idx av r) k = map_of r k"
  by (induction idx av r rule: first_row_options.induct)
     (auto simp: map_of_update Let_def)

lemma first_row_options_value:
  "i < length av \<Longrightarrow>
   map_of (first_row_options idx av r) (option_value_key (idx + i))
     = Some (Cell (Str (hd (snd (av ! i)))))"
proof (induction av arbitrary: idx r i)
  case Nil
  then show ?case by simp
next
  case (Cons e av)
  obtain name vals where e: "e = (name, vals)" by (cases e)
  show ?case
  proof (cases i)
    case 0
    then show ?thesis
      by (simp add: e Let_def first_row_options_other map_of_update)
  next
    case (Suc i')
    with Cons.prems have "i' < length av" by simp
    from Cons.IH [OF this, of "Suc idx"] show ?thesis
      by (simp add: e Let_def Suc)
  qed
qed

lemma variant_combinations_length:
  assumes "j < length (variant_combinations ch va)"
  shows "length (variant_combinations ch va ! j) = length (attribute_values_of ch va)"
proof -
  let ?av = "attribute_values_of ch va"
  from assms have "variant_combinations ch va ! j \<in> set (variant_combinations ch va)"
    by simp
  then have "variant_combinations ch va ! j \<in> set (product_lists (map snd ?av))"
    by (auto simp: variant_combinations_def non_primary_combinations_def Let_def
          split: if_splits)
  from in_set_product_lists_length [OF this] show ?thesis by simp
qed

lemma rows_count:
  assumes "create_variant_rows p ch va ma = Inr rows"
      and "parse_images (images p) = Inr imgs"
  shows "length rows = max 1 (length imgs) + length (variant_combinations ch va)"
proof -
  let ?av = "attribute_values_of ch va"
  from assms obtain info tags first prev imgrows vrows where
    vr: "(if ?av \<noteq> [] \<and> ch \<noteq> []
      then variant_rows_loop (make_base_row p ch ma info tags) ch imgs (map fst ?av)
             (map (\<lambda>v. hd v) (map snd ?av)) prev (product_lists (map snd ?av))
      else Inr []) = Inr vrows"
    and rows: "rows = first # imgrows @ vrows"
    and len: "Suc (length imgrows) = max 1 (length imgs)"
    by (rule rows_layout)
  have "length vrows = length (variant_combinations ch va)"
  proof (cases "?av \<noteq> [] \<and> ch \<noteq> []")
    case True
    with vr have "variant_rows_loop (make_base_row p ch ma info tags) ch imgs (map fst ?av)
             (map hd (map snd ?av)) prev (product_lists (map snd ?av)) = Inr vrows"
      by simp
    from variant_rows_loop_length [OF this] True show ?thesis
      by (simp add: variant_combinations_def non_primary_combinations_def Let_def)
  next
    case False
    with vr show ?thesis
      by (auto simp: variant_combinations_def Let_def)
  qed
  with rows len [symmetric] show ?thesis by simp
qed

lemma option_values_2:
  "option_values 2 r = [map_of r (option_value_key (Suc 0)), map_of r (option_value_key (Suc (Suc 0)))]"
  by (simp add: option_values_def upt_rec eval_nat_numeral)

text \<open>
  Claim C2, as the code has it.  The variant rows of a product are made for the tuples of
  the cartesian product of the value lists, first attribute slowest and last attribute
  fastest, with the primary combination left out, and in that order: the variant row number
  \<open>j\<close> has in its option value columns the values of the combination number \<open>j\<close>.  The
  primary combination is made of the first value of every attribute, and the first row
  carries it.  For colour values Blue, Red and size values M, S the primary combination is
  (Blue, M), and the rows that follow are those of (Blue, S), (Red, M), (Red, S).
\<close>

theorem variant_order:
  assumes "create_variant_rows parent_row children_df variant_attrs metafield_attrs = Inr rows"
      and "parse_images (images parent_row) = Inr parent_images"
  shows "length rows
           = max 1 (length parent_images) + length (variant_combinations children_df variant_attrs)
       \<and> (\<forall>j i. j < length (variant_combinations children_df variant_attrs)
                 \<and> i < length (attribute_values_of children_df variant_attrs) \<longrightarrow>
              map_of (rows ! (max 1 (length parent_images) + j)) (option_value_key (Suc i))
                = Some (Cell (Str (variant_combinations children_df variant_attrs ! j ! i))))
       \<and> (\<forall>i. children_df \<noteq> [] \<and> i < length (attribute_values_of children_df variant_attrs) \<longrightarrow>
              map_of (rows ! 0) (option_value_key (Suc i))
                = Some (Cell (Str (hd (snd (attribute_values_of children_df variant_attrs ! i))))))
       \<and> non_primary_combinations [[''Blue'', ''Red''], [''M'', ''S'']]
           = [[''Blue'', ''S''], [''Red'', ''M''], [''Red'', ''S'']]"
proof -
  let ?av = "attribute_values_of children_df variant_attrs"
  let ?vc = "variant_combinations children_df variant_attrs"
  let ?names = "map fst ?av"
  have count: "length rows = max 1 (length parent_images) + length ?vc"
    using assms by (rule rows_count)
  have var: "map_of (rows ! (max 1 (length parent_images) + j)) (option_value_key (Suc i))
                = Some (Cell (Str (?vc ! j ! i)))"
    if "j < length ?vc \<and> i < length ?av" for j i
  proof -
    from that have j: "j < length ?vc" and i: "i < length ?av" by auto
    from variant_row_resolved [OF assms j] obtain info tags vrow where
      r: "rows ! (max 1 (length parent_images) + j)
            = variant_options 1 (zip ?names (?vc ! j)) vrow" .
    from variant_combinations_length [OF j] i
    have iz: "i < length (zip ?names (?vc ! j))" by simp
    from variant_options_value [OF iz, of 1 vrow] iz show ?thesis
      unfolding r by simp
  qed
  have prim: "map_of (rows ! 0) (option_value_key (Suc i)) = Some (Cell (Str (hd (snd (?av ! i)))))"
    if "children_df \<noteq> [] \<and> i < length ?av" for i
  proof -
    from that obtain c cs where ch: "children_df = c # cs" and i: "i < length ?av"
      by (cases children_df) auto
    from assms obtain info tags first prev imgrows vrows where
      f: "make_first_row (make_base_row parent_row children_df metafield_attrs info tags)
            children_df parent_images ?av (initial_previous parent_row) = Inr (first, prev)"
      and rows: "rows = first # imgrows @ vrows"
      by (rule rows_layout)
    from f ch obtain r where "first = first_row_options 1 ?av r"
      by (auto simp: make_first_row_def Let_def and_then_Inr_iff)
    with first_row_options_value [OF i, of 1 r] rows show ?thesis by simp
  qed
  have ex: "non_primary_combinations [[''Blue'', ''Red''], [''M'', ''S'']]
           = [[''Blue'', ''S''], [''Red'', ''M''], [''Red'', ''S'']]"
    by code_simp
  from count var prim ex show ?thesis by blast
qed

theorem variant_order_witness:
  "\<exists>rows. create_variant_rows shirt [shirt_blue_m, shirt_red_s] [''color'', ''size'']
             (get_metafield_attributes shop) = Inr rows
     \<and> attribute_values_of [shirt_blue_m, shirt_red_s] [''color'', ''size'']
          = [(''color'', [''Blue'', ''Red'']), (''size'', [''M'', ''S''])]
     \<and> length rows = 5
     \<and> option_values 2 (rows ! 0) = [Some (Cell (Str ''Blue'')), Some (Cell (Str ''M''))]
     \<and> option_values 2 (rows ! 2) = [Some (Cell (Str ''Blue'')), Some (Cell (Str ''S''))]
     \<and> option_values 2 (rows ! 3) = [Some (Cell (Str ''Red'')), Some (Cell (Str ''M''))]
     \<and> option_values 2 (rows ! 4) = [Some (Cell (Str ''Red'')), Some (Cell (Str ''S''))]"
proof -
  obtain rows where
    r: "create_variant_rows shirt [shirt_blue_m, shirt_red_s] [''color'', ''size'']
          (get_metafield_attributes shop) = Inr rows"
    by (rule shirt_rows)
  have av: "attribute_values_of [shirt_blue_m, shirt_red_s] [''color'', ''size'']
          = [(''color'', [''Blue'', ''Red'']), (''size'', [''M'', ''S''])]"
    by code_simp
  note t = variant_order [OF r shirt_images, unfolded shirt_combinations av]
  from t have n: "length rows = 5" by simp
  from t have v: "\<And>j i. j < 3 \<Longrightarrow> i < 2 \<Longrightarrow>
        map_of (rows ! (2 + j)) (option_value_key (Suc i))
          = Some (Cell (Str ([[''Blue'', ''S''], [''Red'', ''M''], [''Red'', ''S'']] ! j ! i)))"
    by simp
  from t have p: "\<And>i. i < 2 \<Longrightarrow>
        map_of (rows ! 0) (option_value_key (Suc i))
          = Some (Cell (Str (hd (snd ([(''color'', [''Blue'', ''Red'']),
                                       (''size'', [''M'', ''S''])] ! i)))))"
    by simp
  have "option_values 2 (rows ! 0) = [Some (Cell (Str ''Blue'')), Some (Cell (Str ''M''))]"
    using p [of 0] p [of 1] unfolding option_values_2 by simp
  moreover have "option_values 2 (rows ! 2) = [Some (Cell (Str ''Blue'')), Some (Cell (Str ''S''))]"
    using v [of 0 0] v [of 0 1] unfolding option_values_2 by simp
  moreover have "option_values 2 (rows ! 3) = [Some (Cell (Str ''Red'')), Some (Cell (Str ''M''))]"
    using v [of 1 0] v [of 1 1] unfolding option_values_2 by (simp add: eval_nat_numeral)
  moreover have "option_values 2 (rows ! 4) = [Some (Cell (Str ''Red'')), Some (Cell (Str ''S''))]"
    using v [of 2 0] v [of 2 1] unfolding option_values_2 by (simp add: eval_nat_numeral)
  ultimately show ?thesis using r av n by blast
qed

theorem variant_order_counterexample:
  "case create_variant_rows shirt [shirt_blue_m, shirt_red_s] [''color'', ''size'']
          (get_metafield_attributes shop) of
     Inl e \<Rightarrow> False
   | Inr rows \<Rightarrow>
       attribute_values_of [shirt_blue_m, shirt_red_s] [''color'', ''size'']
         = [(''color'', [''Blue'', ''Red'']), (''size'', [''M'', ''S''])]
       \<and> option_values 2 (rows ! 0) = [Some (Cell (Str ''Blue'')), Some (Cell (Str ''M''))]
       \<and> map (option_values 2) (drop 2 rows)
           = [[Some (Cell (Str ''Blue'')), Some (Cell (Str ''S''))],
              [Some (Cell (Str ''Red'')), Some (Cell (Str ''M''))],
              [Some (Cell (Str ''Red'')), Some (Cell (Str ''S''))]]
       \<and> map (option_values 2) (drop 2 rows)
           \<noteq> [[Some (Cell (Str ''Blue'')), Some (Cell (Str ''M''))],
              [Some (Cell (Str ''Blue'')), Some (Cell (Str ''S''))],
              [Some (Cell (Str ''Red'')), Some (Cell (Str ''S''))]]"
  by code_simp

section \<open>The carried image\<close>

lemma lower_empty_iff: "lower s = [] \<longleftrightarrow> s = []"
  by (simp add: lower_def)

lemma parent_image_match_nonempty:
  "parent_image_match imgs vals = Some u \<Longrightarrow> [] \<notin> set vals \<Longrightarrow> u \<noteq> []"
proof (induction imgs)
  case Nil
  then show ?case by simp
next
  case (Cons img imgs)
  show ?case
  proof (cases "list_ex (\<lambda>attr_val. contains (lower (url img)) (lower attr_val)) vals")
    case True
    with Cons.prems(1) have u: "u = url img" by simp
    from True obtain v where v: "v \<in> set vals" "contains (lower (url img)) (lower v)"
      by (auto simp: list_ex_iff)
    show ?thesis
    proof
      assume "u = []"
      with u v(2) have "lower v = []" by (simp add: lower_def)
      with v(1) Cons.prems(2) show False by (simp add: lower_empty_iff)
    qed
  next
    case False
    with Cons show ?thesis by simp
  qed
qed

lemma get_variant_image_truthy:
  assumes "get_variant_image child imgs vals prev = Inr img"
      and "truthy prev" and "[] \<notin> set vals" and "own_image_usable child"
  shows "truthy img"
proof -
  from assms(1) have "\<exists>own.
      (if \<not> isna (images child) then parse_images (images child) else Inr []) = Inr own
      \<and> (if own \<noteq> [] then Inr (Cell (Str (url (hd own))))
          else (case parent_image_match imgs vals of
                  Some u \<Rightarrow> Inr (Cell (Str u))
                | None \<Rightarrow> Inr (if truthy prev then prev else Cell (Str []))))
          = (Inr img :: error + pyval)"
    unfolding get_variant_image_def and_then_Inr_iff .
  then obtain own where
    own: "(if \<not> isna (images child) then parse_images (images child) else Inr []) = Inr own"
    and img: "(if own \<noteq> [] then Inr (Cell (Str (url (hd own))))
          else (case parent_image_match imgs vals of
                  Some u \<Rightarrow> Inr (Cell (Str u))
                | None \<Rightarrow> Inr (if truthy prev then prev else Cell (Str []))))
          = (Inr img :: error + pyval)"
    by blast
  show ?thesis
  proof (cases own)
    case (Cons i rest)
    with own have "parse_images (images child) = Inr (i # rest)"
      by (auto split: if_splits)
    with assms(4) have "url i \<noteq> []" by (simp add: own_image_usable_def)
    with img Cons show ?thesis by (auto simp: truthy_def)
  next
    case Nil
    show ?thesis
    proof (cases "parent_image_match imgs vals")
      case None
      with img Nil assms(2) show ?thesis by auto
    next
      case (Some u)
      from parent_image_match_nonempty [OF Some assms(3)] img Nil Some
      show ?thesis by (auto simp: truthy_def)
    qed
  qed
qed

lemma resolve_variant_image:
  assumes "resolve_variant base ch imgs names prev vv = Inr r"
      and "truthy (variant_image prev)" and "[] \<notin> set vv"
      and "case find_matching_child ch (zip names vv) of
             None \<Rightarrow> True | Some child \<Rightarrow> own_image_usable child"
  shows "\<exists>v. map_of r ''Variant Image'' = Some v \<and> truthy v"
proof (cases "find_matching_child ch (zip names vv)")
  case None
  with assms(1,2) show ?thesis
    by (auto simp: resolve_variant_def map_of_update)
next
  case (Some child)
  with assms(1) obtain img where
    g: "get_variant_image child imgs vv (variant_image prev) = Inr img"
    and r: "r = (if truthy img
                 then AList.update ''Variant Image'' img
                        (AList.update ''Variant Compare At Price'' (resolve_compare child prev)
                           (AList.update ''Variant Price'' (resolve_price child prev) base))
                 else AList.update ''Variant Compare At Price'' (resolve_compare child prev)
                        (AList.update ''Variant Price'' (resolve_price child prev) base))"
    by (auto simp: resolve_variant_def Let_def and_then_Inr_iff)
  from assms(4) Some have "own_image_usable child" by simp
  from get_variant_image_truthy [OF g assms(2,3) this] r show ?thesis
    by (simp add: map_of_update)
qed

lemma product_lists_member:
  "vv \<in> set (product_lists vss) \<Longrightarrow> x \<in> set vv \<Longrightarrow> \<exists>vs \<in> set vss. x \<in> set vs"
proof (induction vss arbitrary: vv)
  case Nil
  then show ?case by simp
next
  case (Cons vs vss)
  from Cons.prems(1) obtain y w where
    vv: "vv = y # w" and y: "y \<in> set vs" and w: "w \<in> set (product_lists vss)"
    by auto
  from Cons.prems(2) vv consider "x = y" | "x \<in> set w" by auto
  then show ?case
  proof cases
    case 1
    with y show ?thesis by auto
  next
    case 2
    from Cons.IH [OF w 2] show ?thesis by auto
  qed
qed

lemma variant_combinations_nonempty_values:
  assumes "j < length (variant_combinations ch va)"
  shows "[] \<notin> set (variant_combinations ch va ! j)"
proof
  let ?av = "attribute_values_of ch va"
  assume e: "[] \<in> set (variant_combinations ch va ! j)"
  from assms have "variant_combinations ch va ! j \<in> set (variant_combinations ch va)"
    by simp
  then have "variant_combinations ch va ! j \<in> set (product_lists (map snd ?av))"
    by (auto simp: variant_combinations_def non_primary_combinations_def Let_def
          split: if_splits)
  from product_lists_member [OF this e] obtain a vs where
    "(a, vs) \<in> set ?av" "[] \<in> set vs" by auto
  with attribute_values_entries [of a vs ch va] show False by simp
qed

lemma lamp_rows:
  obtains rows where
    "create_variant_rows lamp [lamp_blue, lamp_green, lamp_red] [''color''] [] = Inr rows"
    "map (\<lambda>r. map_of r ''Variant Image'') rows =
       [Some (Cell (Str ''http://blue.jpg'')), Some (Cell (Str ''http://blue.jpg'')), None]"
proof -
  have "case create_variant_rows lamp [lamp_blue, lamp_green, lamp_red] [''color''] [] of
          Inl e \<Rightarrow> False
        | Inr rows \<Rightarrow> map (\<lambda>r. map_of r ''Variant Image'') rows =
            [Some (Cell (Str ''http://blue.jpg'')), Some (Cell (Str ''http://blue.jpg'')), None]"
    by code_simp
  then show ?thesis using that by (auto split: sum.splits)
qed

lemma lamp_combinations:
  "variant_combinations [lamp_blue, lamp_green, lamp_red] [''color''] = [[''Green''], [''Red'']]"
  by code_simp

lemma lamp_matches:
  "matching_child_of [lamp_blue, lamp_green, lamp_red] [''color''] [''Green''] = Some lamp_green"
  "matching_child_of [lamp_blue, lamp_green, lamp_red] [''color''] [''Red''] = Some lamp_red"
  by code_simp+

lemma lamp_images: "parse_images (images lamp) = Inr [\<lparr>url = ''http://lamp.jpg'', alt = []\<rparr>]"
  by code_simp

text \<open>
  Claim C10, as the code has it.  Take the variant row number \<open>j\<close> of a product and the
  row resolved just before it.  If the carried \<^verbatim>\<open>Variant Image\<close> after that earlier row is
  not empty, and the matcher finds no child for the combination or finds a child whose own
  image list is missing, empty or starts with a URL that is not empty, then the row has a
  \<^verbatim>\<open>Variant Image\<close> that is not empty, and so has the carried state after it.  (A matched
  child whose first own image has an empty URL is the case left out: there the row gets no
  \<^verbatim>\<open>Variant Image\<close> and the carried image becomes empty again, as the example of the lamp
  shows.)
\<close>

theorem carried_image_kept:
  assumes "create_variant_rows parent_row children_df variant_attrs metafield_attrs = Inr rows"
      and "parse_images (images parent_row) = Inr parent_images"
      and "j < length (variant_combinations children_df variant_attrs)"
      and "truthy (variant_image
             (carried_from (rows ! previous_row_index (length parent_images) j)))"
      and "case matching_child_of children_df variant_attrs
                  (variant_combinations children_df variant_attrs ! j) of
             None \<Rightarrow> True
           | Some child \<Rightarrow> own_image_usable child"
  shows "has_key (rows ! (max 1 (length parent_images) + j)) ''Variant Image''
       \<and> truthy (dict_get (rows ! (max 1 (length parent_images) + j)) ''Variant Image''
                   (Cell (Str [])))
       \<and> truthy (variant_image (carried_from (rows ! (max 1 (length parent_images) + j))))"
proof -
  let ?n = "max 1 (length parent_images) + j"
  let ?m = "previous_row_index (length parent_images) j"
  let ?names = "map fst (attribute_values_of children_df variant_attrs)"
  let ?vv = "variant_combinations children_df variant_attrs ! j"
  from variant_row_resolved [OF assms(1,2,3)] obtain info tags vrow where
    v: "resolve_variant (make_base_row parent_row children_df metafield_attrs info tags)
          children_df parent_images ?names (carried_from (rows ! ?m)) ?vv = Inr vrow"
    and r: "rows ! ?n = variant_options 1 (zip ?names ?vv) vrow" .
  from assms(5) have m: "case find_matching_child children_df (zip ?names ?vv) of
             None \<Rightarrow> True | Some child \<Rightarrow> own_image_usable child"
    by (simp add: matching_child_of_def)
  from resolve_variant_image
    [OF v assms(4) variant_combinations_nonempty_values [OF assms(3)] m]
  obtain x where "map_of vrow ''Variant Image'' = Some x" and t: "truthy x" by blast
  then have x: "map_of (rows ! ?n) ''Variant Image'' = Some x"
    unfolding r by (simp add: map_of_variant_options)
  with t show ?thesis
    by (simp add: has_key_def dict_get_def carried_from_def)
qed

theorem carried_image_kept_witness:
  "\<exists>rows. create_variant_rows lamp [lamp_blue, lamp_green, lamp_red] [''color''] [] = Inr rows
     \<and> variant_combinations [lamp_blue, lamp_green, lamp_red] [''color''] ! 0 = [''Green'']
     \<and> matching_child_of [lamp_blue, lamp_green, lamp_red] [''color''] [''Green'']
          = Some lamp_green
     \<and> own_image_usable lamp_green
     \<and> truthy (variant_image (carried_from (rows ! 0)))
     \<and> has_key (rows ! 1) ''Variant Image''
     \<and> truthy (variant_image (carried_from (rows ! 1)))"
proof -
  obtain rows where
    r: "create_variant_rows lamp [lamp_blue, lamp_green, lamp_red] [''color''] [] = Inr rows"
    and p: "map (\<lambda>r. map_of r ''Variant Image'') rows =
       [Some (Cell (Str ''http://blue.jpg'')), Some (Cell (Str ''http://blue.jpg'')), None]"
    by (rule lamp_rows)
  from p obtain r0 r1 r2 where
    rows: "rows = [r0, r1, r2]"
    and p0: "map_of r0 ''Variant Image'' = Some (Cell (Str ''http://blue.jpg''))"
    by (auto simp: map_eq_Cons_conv)
  have u: "own_image_usable lamp_green" by code_simp
  have j: "0 < length (variant_combinations [lamp_blue, lamp_green, lamp_red] [''color''])"
    by (simp add: lamp_combinations)
  have c: "variant_combinations [lamp_blue, lamp_green, lamp_red] [''color''] ! 0 = [''Green'']"
    by (simp add: lamp_combinations)
  have t0: "truthy (variant_image (carried_from (rows ! 0)))"
    using p0 rows by (simp add: carried_from_def dict_get_def truthy_def)
  then have t: "truthy (variant_image (carried_from
      (rows ! previous_row_index (length [\<lparr>url = ''http://lamp.jpg'', alt = []\<rparr>]) 0)))"
    by (simp add: previous_row_index_def)
  have m: "case matching_child_of [lamp_blue, lamp_green, lamp_red] [''color'']
                  (variant_combinations [lamp_blue, lamp_green, lamp_red] [''color''] ! 0) of
             None \<Rightarrow> True
           | Some child \<Rightarrow> own_image_usable child"
    by (simp add: c lamp_matches u)
  from carried_image_kept [OF r lamp_images j t m]
  have "has_key (rows ! 1) ''Variant Image''"
    "truthy (variant_image (carried_from (rows ! 1)))"
    by simp_all
  with r c lamp_matches(1) u t0 show ?thesis by blast
qed

theorem carried_image_kept_counterexample:
  "case create_variant_rows lamp [lamp_blue, lamp_green, lamp_red] [''color''] [] of
     Inl e \<Rightarrow> False
   | Inr rows \<Rightarrow>
       length rows = 3
       \<and> variant_combinations [lamp_blue, lamp_green, lamp_red] [''color'']
           = [[''Green''], [''Red'']]
       \<and> matching_child_of [lamp_blue, lamp_green, lamp_red] [''color''] [''Red'']
           = Some lamp_red
       \<and> variant_image (carried_from (rows ! 1)) = Cell (Str ''http://blue.jpg'')
       \<and> \<not> has_key (rows ! 2) ''Variant Image''
       \<and> variant_image (carried_from (rows ! 2)) = Cell (Str [])"
  by code_simp

section \<open>A product without children\<close>

lemma variant_combinations_no_children: "variant_combinations [] va = []"
  by (simp add: variant_combinations_def Let_def)

lemma first_row_no_children:
  assumes "make_first_row base [] imgs av prev = Inr (first, prev')"
  shows "map_of first ''Variant Price'' = Some (variant_price prev)"
    and "map_of first ''Variant Compare At Price'' = Some (compare_at_price prev)"
  using assms by (auto simp: make_first_row_def map_of_update)

text \<open>
  Claim C5, as the code has it.  A product without children gets its first row, then one
  row for every parsed image after the first (with the positions \<open>2, ..., k\<close>), and no
  variant row.  The first row has the prices of the parent, \<^verbatim>\<open>Variant Price\<close> from its
  regular price and \<^verbatim>\<open>Variant Compare At Price\<close> from its sale price, each the empty text
  when the parent has none, and it has no option column.  With no image either, the
  product gets exactly this one row.
\<close>

theorem no_children_rows:
  assumes "create_variant_rows parent_row [] variant_attrs (get_metafield_attributes df)
             = Inr rows"
      and "parse_images (images parent_row) = Inr parent_images"
  shows "length rows = 1 + (length parent_images - 1)
       \<and> (parent_images = [] \<longrightarrow> length rows = 1)
       \<and> (\<forall>i. 1 \<le> i \<and> i < length parent_images \<longrightarrow>
             map_of (rows ! i) ''Image Position'' = Some (Cell (Num (int i + 1))))
       \<and> map_of (rows ! 0) ''Variant Price''
           = Some (Cell (if isna (regular_price parent_row) then Str []
                         else regular_price parent_row))
       \<and> map_of (rows ! 0) ''Variant Compare At Price''
           = Some (Cell (if isna (sale_price parent_row) then Str []
                         else sale_price parent_row))
       \<and> (\<forall>k. \<not> has_key (rows ! 0) (option_name_key k)
              \<and> \<not> has_key (rows ! 0) (option_value_key k))"
proof -
  let ?ma = "get_metafield_attributes df"
  from rows_count [OF assms]
  have count: "length rows = 1 + (length parent_images - 1)"
    by (auto simp: variant_combinations_no_children max_def)
  then have one: "parent_images = [] \<longrightarrow> length rows = 1" by auto
  have pos: "map_of (rows ! i) ''Image Position'' = Some (Cell (Num (int i + 1)))"
    if "1 \<le> i \<and> i < length parent_images" for i
  proof -
    from that have i: "1 \<le> i" "i < length parent_images" by auto
    from image_row_at [OF assms i] obtain info tags where
      m: "make_image_row parent_row (make_base_row parent_row [] ?ma info tags)
            ?ma info (Suc i) (parent_images ! i) = Inr (rows ! i)" .
    have "''Image Position'' \<notin> field_name ` set ?ma"
      by (rule metafield_key_neq) simp
    with map_of_make_image_row [OF m] show ?thesis by (simp add: add.commute)
  qed
  from assms obtain info tags first prev imgrows vrows where
    f: "make_first_row (make_base_row parent_row [] ?ma info tags) [] parent_images
          (attribute_values_of [] variant_attrs) (initial_previous parent_row)
          = Inr (first, prev)"
    and rows: "rows = first # imgrows @ vrows"
    by (rule rows_layout)
  from first_row_no_children [OF f] rows
  have price: "map_of (rows ! 0) ''Variant Price''
           = Some (Cell (if isna (regular_price parent_row) then Str []
                         else regular_price parent_row))"
    and compare: "map_of (rows ! 0) ''Variant Compare At Price''
           = Some (Cell (if isna (sale_price parent_row) then Str []
                         else sale_price parent_row))"
    by (simp_all add: initial_previous_def)
  have opt: "\<not> has_key (rows ! 0) (option_name_key k) \<and> \<not> has_key (rows ! 0) (option_value_key k)"
    for k
  proof -
    have n: "option_name_key k \<notin> field_name ` set ?ma"
      by (rule metafield_key_neq) (simp add: option_name_key_last)
    have v: "option_value_key k \<notin> field_name ` set ?ma"
      by (rule metafield_key_neq) (simp add: option_value_key_last)
    have "\<not> has_key first (option_name_key k)"
    proof
      assume "has_key first (option_name_key k)"
      from has_key_make_first_row [OF f this] n show False
        by (simp add: has_key_make_base_row category_key_def sub_category_key_def
              option_name_key_def)
    qed
    moreover have "\<not> has_key first (option_value_key k)"
    proof
      assume "has_key first (option_value_key k)"
      from has_key_make_first_row [OF f this] v show False
        by (simp add: has_key_make_base_row category_key_def sub_category_key_def
              option_value_key_def)
    qed
    ultimately show ?thesis using rows by simp
  qed
  from count one pos price compare opt show ?thesis by blast
qed

theorem no_children_rows_witness:
  "\<exists>rows. create_variant_rows shirt [] [''color'', ''size''] (get_metafield_attributes shop)
             = Inr rows
     \<and> length rows = 2
     \<and> map_of (rows ! 1) ''Image Position'' = Some (Cell (Num 2))
     \<and> map_of (rows ! 0) ''Variant Price'' = Some (Cell (Str ''25.00''))
     \<and> map_of (rows ! 0) ''Variant Compare At Price'' = Some (Cell (Str []))
     \<and> \<not> has_key (rows ! 0) (option_name_key 1)"
proof -
  have "\<not> isl (create_variant_rows shirt [] [''color'', ''size''] (get_metafield_attributes shop))"
    by code_simp
  then obtain rows where
    r: "create_variant_rows shirt [] [''color'', ''size''] (get_metafield_attributes shop)
          = Inr rows"
    by (cases "create_variant_rows shirt [] [''color'', ''size'']
                 (get_metafield_attributes shop)") auto
  have rp: "regular_price shirt = Str ''25.00''" "sale_price shirt = NaN"
    by code_simp+
  from no_children_rows [OF r shirt_images] r show ?thesis
    by (simp add: rp isna_def)
qed

theorem no_children_rows_counterexample:
  "(case create_variant_rows shirt [] [''color'', ''size''] (get_metafield_attributes shop) of
      Inl e \<Rightarrow> False
    | Inr rows \<Rightarrow>
        length rows = 2
        \<and> map_of (rows ! 1) ''Image Src'' = Some (Cell (Str ''http://b.jpg''))
        \<and> map_of (rows ! 1) ''Image Position'' = Some (Cell (Num 2)))
   \<and> (case create_variant_rows mug [] [] [] of
         Inl e \<Rightarrow> False
       | Inr rows \<Rightarrow>
           length rows = 1
           \<and> map_of (rows ! 0) ''Variant Price'' = Some (Cell (Str ''7.50''))
           \<and> map_of (rows ! 0) ''Variant Compare At Price'' = Some (Cell (Str ''6.00'')))"
  by code_simp

section \<open>Failures in a batch\<close>

lemma convert_loop_result:
  "convert_loop df va ma ps =
     (case find (\<lambda>p. isl (create_variant_rows p (children_of df p) va ma)) ps of
        Some p \<Rightarrow> Inl (projl (create_variant_rows p (children_of df p) va ma))
      | None \<Rightarrow> Inr (concat (map (\<lambda>p. projr (create_variant_rows p (children_of df p) va ma)) ps)))"
proof (induction ps)
  case Nil
  then show ?case by simp
next
  case (Cons p ps)
  show ?case
  proof (cases "create_variant_rows p (children_of df p) va ma")
    case (Inl e)
    then show ?thesis by simp
  next
    case (Inr rows)
    then show ?thesis
      using Cons.IH by (simp split: option.splits)
  qed
qed

text \<open>
  Claim C6, as the code has it.  \<^verbatim>\<open>convert_wordpress_to_shopify\<close> has no handler around the
  call of \<^verbatim>\<open>create_variant_rows\<close>: when the call fails for some parent, the conversion ends
  with the error of the first parent for which it fails and gives no rows at all, not even
  those of the products before it; when it fails for no parent, the output is the rows of
  all products, in the order of the parents.  (The caller \<^verbatim>\<open>main\<close> wraps the whole
  conversion in one \<^verbatim>\<open>try\<close> and shows that one error.)
\<close>

theorem conversion_all_or_nothing:
  "convert_wordpress_to_shopify df =
     (case find (\<lambda>parent_row. isl (product_rows df parent_row)) (parent_products df) of
        Some parent_row \<Rightarrow> Inl (projl (product_rows df parent_row))
      | None \<Rightarrow>
          Inr (concat (map (\<lambda>parent_row. projr (product_rows df parent_row))
                 (parent_products df))))"
  unfolding convert_wordpress_to_shopify_def convert_loop_result product_rows_def ..

theorem conversion_all_or_nothing_witness:
  "convert_wordpress_to_shopify clock_shop = Inl AttributeError
   \<and> (\<exists>rows. product_rows shop shirt = Inr rows \<and> convert_wordpress_to_shopify shop = Inr rows)"
proof -
  have f: "find (\<lambda>parent_row. isl (product_rows clock_shop parent_row))
             (parent_products clock_shop) = Some clock"
    by code_simp
  have e: "product_rows clock_shop clock = Inl AttributeError"
    by code_simp
  have a: "convert_wordpress_to_shopify clock_shop = Inl AttributeError"
    unfolding conversion_all_or_nothing [of clock_shop] f by (simp add: e)
  have p: "parent_products shop = [shirt]"
    by code_simp
  have n: "\<not> isl (product_rows shop shirt)"
    by code_simp
  then obtain rows where r: "product_rows shop shirt = Inr rows"
    by (cases "product_rows shop shirt") auto
  have "convert_wordpress_to_shopify shop = Inr rows"
    unfolding conversion_all_or_nothing [of shop] p using n r by simp
  with a r show ?thesis by blast
qed

theorem conversion_all_or_nothing_counterexample:
  "parent_products clock_shop = [mug, clock]
   \<and> (case product_rows clock_shop mug of Inl e \<Rightarrow> False | Inr rows \<Rightarrow> length rows = 1)
   \<and> product_rows clock_shop clock = Inl AttributeError
   \<and> convert_wordpress_to_shopify clock_shop = Inl AttributeError"
  by code_simp

section \<open>The matcher and cells with blanks\<close>

text \<open>
  Claim C4 at the scarf.  The colour cell of the red child is \<^verbatim>\<open>" Red"\<close>: the attribute
  catalog trims it and lists the value \<^verbatim>\<open>Red\<close>, but the matcher compares a cell without a bar
  as it is, so the red child does not match the combination (Red), no child does, and the
  row of the red scarf gets the carried price 10.00 of the blue one instead of its own
  12.00.
\<close>

theorem matcher_untrimmed_cell:
  "get_option_values [scarf_blue, scarf_red] ''color'' = [''Blue'', ''Red'']
   \<and> variant_combinations [scarf_blue, scarf_red] [''color''] = [[''Red'']]
   \<and> row_get scarf_red ''meta:attribute_pa_color'' = Some (Str '' Red'')
   \<and> strip '' Red'' = ''Red''
   \<and> \<not> child_matches scarf_red [(''color'', ''Red'')]
   \<and> find_matching_child [scarf_blue, scarf_red] [(''color'', ''Red'')] = None
   \<and> (case create_variant_rows scarf [scarf_blue, scarf_red] [''color''] [] of
         Inl e \<Rightarrow> False
       | Inr rows \<Rightarrow>
           length rows = 2
           \<and> map_of (rows ! 1) (option_value_key 1) = Some (Cell (Str ''Red''))
           \<and> map_of (rows ! 1) ''Variant Price'' = Some (Cell (Str ''10.00'')))"
  by code_simp

section \<open>The matcher and number cells\<close>

text \<open>
  The attribute catalog lists a float cell as \<^verbatim>\<open>str(int(x))\<close>, the matcher compares the value
  with \<^verbatim>\<open>str(x)\<close>: the size \<^verbatim>\<open>40\<close> of the boot does not match the cell \<^verbatim>\<open>40.0\<close> it was read
  from, while a cell that holds the integer 40 matches.
\<close>

lemma matcher_float_cell:
  "get_option_values [boot_40] ''size'' = [''40'']
   \<and> \<not> child_matches boot_40 [(''size'', ''40'')]
   \<and> find_matching_child [boot_40] [(''size'', ''40'')] = None
   \<and> child_matches (boot_40\<lparr>other_columns := [(''meta:attribute_pa_size'', Num 40)]\<rparr>)
         [(''size'', ''40'')]"
  by code_simp

section \<open>What the matcher returns\<close>

lemma child_matches_list_all:
  "child_matches child combination =
     list_all (\<lambda>(attr_name, v).
        case row_get child (''meta:attribute_pa_'' @ attr_name) of
          None \<Rightarrow> True
        | Some c \<Rightarrow>
            isna c \<or> v \<in> set (if CHR ''|'' \<in> set (py_str c)
                              then map strip (split_on CHR ''|'' (py_str c))
                              else [py_str c]))
       combination"
proof (induction combination)
  case Nil
  then show ?case by simp
next
  case (Cons e combination)
  obtain a v where e: "e = (a, v)" by (cases e)
  show ?case
  proof (cases "row_get child (''meta:attribute_pa_'' @ a)")
    case None
    with Cons.IH show ?thesis by (simp add: e)
  next
    case (Some c)
    show ?thesis
    proof (cases "isna c")
      case True
      with Some Cons.IH show ?thesis by (simp add: e)
    next
      case False
      with Some Cons.IH show ?thesis by (simp add: e Let_def)
    qed
  qed
qed

lemma find_matching_child_find:
  "find_matching_child children_df combination =
     find (\<lambda>child. child_matches child combination) children_df"
  by (induction children_df) auto

text \<open>
  The matcher returns the first child, in the order of the frame, that matches the
  combination; a child matches when, for every attribute and value of the combination, its
  cell for the attribute is not there, is missing, or lists the value: among its trimmed
  pieces when the cell contains a bar, else as the whole cell, not trimmed.
\<close>

theorem matcher_first_match:
  "find_matching_child children_df combination =
     find (\<lambda>child. child_matches child combination) children_df
   \<and> child_matches child combination =
       list_all (\<lambda>(attr_name, v).
          case row_get child (''meta:attribute_pa_'' @ attr_name) of
            None \<Rightarrow> True
          | Some c \<Rightarrow>
              isna c \<or> v \<in> set (if CHR ''|'' \<in> set (py_str c)
                                then map strip (split_on CHR ''|'' (py_str c))
                                else [py_str c]))
         combination"
  using child_matches_list_all find_matching_child_find by blast

section \<open>Tags\<close>

text \<open>
  The tags of \<^verbatim>\<open>All > Shoes > Running|All > Shoes > Trail\<close> are the deepest levels of the two
  paths, sorted and joined: \<^verbatim>\<open>Running, Trail\<close>.
\<close>

theorem extract_tags_deepest:
  "extract_tags (Str ''All > Shoes > Running|All > Shoes > Trail'') False
     = Inr (Cell (Str ''Running, Trail''))"
  by code_simp

section \<open>The handle\<close>

lemma map_of_add_metafields:
  "k \<notin> field_name ` set ma \<Longrightarrow> map_of (add_metafields p ch ma base) k = map_of base k"
  by (induction ma arbitrary: base) (auto simp: map_of_update)

lemma base_row_handle:
  "''Handle'' \<notin> field_name ` set ma \<Longrightarrow>
   map_of (make_base_row p ch ma info tags) ''Handle'' = Some (Cell (post_title p))"
  by (simp add: make_base_row_def map_of_add_metafields)

lemma first_row_handle:
  assumes "make_first_row base ch imgs av prev = Inr (first, prev')"
  shows "map_of first ''Handle'' = map_of base ''Handle''"
proof -
  have o: "\<forall>i. ''Handle'' \<noteq> option_name_key i \<and> ''Handle'' \<noteq> option_value_key i"
    by (simp add: option_name_key_def option_value_key_def)
  have w: "map_of (with_first_image imgs base) ''Handle'' = map_of base ''Handle''"
    by (simp add: with_first_image_def map_of_update split: list.splits)
  from assms show ?thesis
    by (cases ch)
       (auto simp: make_first_row_def Let_def and_then_Inr_iff map_of_update w
          map_of_first_row_options [OF _ o] split: if_splits)
qed

lemma resolve_variant_handle:
  assumes "resolve_variant base ch imgs names prev vv = Inr r"
  shows "map_of r ''Handle'' = map_of base ''Handle''"
  using assms
  by (auto simp: resolve_variant_def Let_def and_then_Inr_iff map_of_update
        split: option.splits if_splits)

lemma image_row_handle:
  assumes "make_image_row p base ma info idx img = Inr r"
      and "''Handle'' \<notin> field_name ` set ma"
  shows "map_of r ''Handle'' = Some (Cell (post_title p))"
proof -
  from assms(1) obtain tags r0 where
    c: "copy_metafields base ma
          [(''Handle'', Cell (post_title p)), (''Image Src'', Cell (Str (url img))),
           (''Image Alt Text'', Cell (Str (alt img))),
           (''Image Position'', Cell (Num (int idx))), (''Tags'', tags)] = Inr r0"
    and r: "r = AList.update sub_category_key (Cell (Str (subcategory info)))
                 (AList.update category_key (Cell (Str (category info))) r0)"
    by (auto simp: make_image_row_def and_then_Inr_iff)
  from map_of_copy_metafields [OF c assms(2)] show ?thesis
    by (simp add: r map_of_update category_key_def sub_category_key_def)
qed

text \<open>
  Every row of a product, assembled with the metafield columns of the data frame, has the
  title of the parent as its \<^verbatim>\<open>Handle\<close>.
\<close>

theorem handle_on_every_row:
  assumes "create_variant_rows parent_row children_df variant_attrs (get_metafield_attributes df)
             = Inr rows"
      and "i < length rows"
  shows "map_of (rows ! i) ''Handle'' = Some (Cell (post_title parent_row))"
proof -
  let ?ma = "get_metafield_attributes df"
  have nf: "''Handle'' \<notin> field_name ` set ?ma"
    by (rule metafield_key_neq) simp
  from assms(1) obtain imgs where imgs: "parse_images (images parent_row) = Inr imgs"
    by (rule create_variant_rows_InrD)
  show ?thesis
  proof (cases "i = 0")
    case True
    from assms(1) imgs obtain info tags first prev imgrows vrows where
      f: "make_first_row (make_base_row parent_row children_df ?ma info tags) children_df imgs
            (attribute_values_of children_df variant_attrs) (initial_previous parent_row)
            = Inr (first, prev)"
      and rows: "rows = first # imgrows @ vrows"
      by (rule rows_layout)
    from first_row_handle [OF f] base_row_handle [OF nf] rows True show ?thesis by simp
  next
    case False
    show ?thesis
    proof (cases "i < length imgs")
      case True
      with False have "1 \<le> i" by simp
      from image_row_at [OF assms(1) imgs this True] obtain info tags where
        "make_image_row parent_row (make_base_row parent_row children_df ?ma info tags)
            ?ma info (Suc i) (imgs ! i) = Inr (rows ! i)" .
      from image_row_handle [OF this nf] show ?thesis .
    next
      case False
      with \<open>i \<noteq> 0\<close> have ge: "max 1 (length imgs) \<le> i" by simp
      then obtain j where j: "i = max 1 (length imgs) + j"
        by (metis le_Suc_ex)
      from rows_count [OF assms(1) imgs] assms(2) j
      have jl: "j < length (variant_combinations children_df variant_attrs)" by simp
      from variant_row_resolved [OF assms(1) imgs jl] obtain info tags vrow where
        v: "resolve_variant (make_base_row parent_row children_df ?ma info tags) children_df imgs
              (map fst (attribute_values_of children_df variant_attrs))
              (carried_from (rows ! previous_row_index (length imgs) j))
              (variant_combinations children_df variant_attrs ! j) = Inr vrow"
        and r: "rows ! (max 1 (length imgs) + j)
              = variant_options 1
                  (zip (map fst (attribute_values_of children_df variant_attrs))
                     (variant_combinations children_df variant_attrs ! j)) vrow" .
      have o: "\<forall>i. ''Handle'' \<noteq> option_name_key i \<and> ''Handle'' \<noteq> option_value_key i"
        by (simp add: option_name_key_def option_value_key_def)
      have "map_of (rows ! i) ''Handle'' = map_of vrow ''Handle''"
        unfolding j r by (rule map_of_variant_options [OF o])
      with resolve_variant_handle [OF v] base_row_handle [OF nf] show ?thesis by simp
    qed
  qed
qed

theorem handle_on_every_row_witness:
  "\<exists>rows. create_variant_rows shirt [shirt_blue_m, shirt_red_s] [''color'', ''size'']
             (get_metafield_attributes shop) = Inr rows
     \<and> length rows = 5
     \<and> map_of (rows ! 0) ''Handle'' = Some (Cell (Str ''Shirt''))
     \<and> map_of (rows ! 1) ''Handle'' = Some (Cell (Str ''Shirt''))
     \<and> map_of (rows ! 4) ''Handle'' = Some (Cell (Str ''Shirt''))"
proof -
  obtain rows where
    r: "create_variant_rows shirt [shirt_blue_m, shirt_red_s] [''color'', ''size'']
          (get_metafield_attributes shop) = Inr rows"
    and n: "length rows = 5"
    by (rule shirt_rows)
  have t: "post_title shirt = Str ''Shirt''" by code_simp
  from n have "0 < length rows" "1 < length rows" "4 < length rows" by simp_all
  from this [THEN handle_on_every_row [OF r]] r n show ?thesis
    by (simp add: t)
qed

end
